theory Spec2Isabelle
  imports Main "HOL-Library.Sublist" "HOL-Library.Char_ord" "HOL-Library.List_Lexorder"
    "HOL-Library.Product_Lexorder"
begin

section \<open>Python strings\<close>

text \<open>
  A Python \<open>str\<close> is modelled as a \<^typ>\<open>string\<close> whose characters are the code points
  U+0000 to U+00FF (Latin-1); \<open>of_char\<close> gives the code point. All literals of
  \<open>ini.py\<close> lie in this range. The built-in string methods below are written for
  this range.
\<close>

definition code :: "char \<Rightarrow> int" where
  "code c = of_char c"

text \<open>\<open>str.isspace\<close> for one character: the code points below 256 that Python counts
  as whitespace.\<close>

definition py_isspace :: "char \<Rightarrow> bool" where
  "py_isspace c = (code c \<in> {9, 10, 11, 12, 13, 28, 29, 30, 31, 32, 133, 160})"

text \<open>\<open>s.strip()\<close>: whitespace removed at both ends.\<close>

definition py_strip :: "string \<Rightarrow> string" where
  "py_strip s = rev (dropWhile py_isspace (rev (dropWhile py_isspace s)))"

text \<open>\<open>s.lower()\<close>: A-Z and the Latin-1 capitals U+00C0 to U+00DE (without the
  multiplication sign U+00D7) move up by 32; every other character stays.\<close>

definition lower_char :: "char \<Rightarrow> char" where
  "lower_char c = (let n = code c in
     if (65 \<le> n \<and> n \<le> 90) \<or> (192 \<le> n \<and> n \<le> 222 \<and> n \<noteq> 215)
     then char_of (n + 32) else c)"

definition py_lower :: "string \<Rightarrow> string" where
  "py_lower s = map lower_char s"

text \<open>\<open>sub in s\<close>: \<open>sub\<close> occurs in \<open>s\<close> as a contiguous substring.\<close>

fun py_in :: "string \<Rightarrow> string \<Rightarrow> bool" where
  "py_in sub [] = (sub = [])"
| "py_in sub (c # cs) = (prefix sub (c # cs) \<or> py_in sub cs)"

text \<open>\<open>s.replace(old, new)\<close>: left to right, non-overlapping occurrences. With an
  empty \<open>old\<close> Python puts \<open>new\<close> before every character and at the end.\<close>

function replace_from :: "string \<Rightarrow> string \<Rightarrow> string \<Rightarrow> string" where
  "replace_from old new [] = []"
| "replace_from old new (c # cs) =
     (if old \<noteq> [] \<and> prefix old (c # cs)
      then new @ replace_from old new (drop (length old) (c # cs))
      else c # replace_from old new cs)"
  by pat_completeness auto
termination
  by (relation "measure (\<lambda>(old, new, s). length s)") auto

definition py_replace :: "string \<Rightarrow> string \<Rightarrow> string \<Rightarrow> string" where
  "py_replace old new s =
     (if old = [] then new @ concat (map (\<lambda>c. c # new) s) else replace_from old new s)"

text \<open>\<open>sep.join(parts)\<close> and \<open>s.split(sep)\<close> for a one-character separator.\<close>

fun py_join :: "string \<Rightarrow> string list \<Rightarrow> string" where
  "py_join sep [] = []"
| "py_join sep [p] = p"
| "py_join sep (p # q # ps) = p @ sep @ py_join sep (q # ps)"

fun py_split :: "char \<Rightarrow> string \<Rightarrow> string list" where
  "py_split sep [] = [[]]"
| "py_split sep (c # cs) =
     (case py_split sep cs of
        [] \<Rightarrow> [[c]]
      | p # ps \<Rightarrow> if c = sep then [] # p # ps else (c # p) # ps)"

section \<open>Python floats\<close>

text \<open>
  A Python \<open>float\<close> is an IEEE 754 binary64 number. A finite one is modelled by an integer
  significand \<open>m\<close> and a binary exponent \<open>e\<close>, with the value \<open>m * 2 ^ e\<close>; the value is what
  every operation below reads. The sign of a zero is not kept: no operation of \<open>ini.py\<close>
  tells \<open>-0.0\<close> from \<open>0.0\<close>.
\<close>

datatype pyfloat = Finite int int | PosInf | NegInf | NaN

text \<open>The quotient \<open>n / d\<close> (for \<open>d > 0\<close>) rounded to the nearest integer, ties to even.\<close>

definition rne_div :: "int \<Rightarrow> int \<Rightarrow> int" where
  "rne_div n d = (let q = n div d; r = n mod d in
     if 2 * r < d then q else if 2 * r > d then q + 1 else if even q then q else q + 1)"

text \<open>Number of binary digits of a positive integer.\<close>

function bitlen :: "int \<Rightarrow> int" where
  "bitlen n = (if n \<le> 0 then 0 else 1 + bitlen (n div 2))"
  by pat_completeness auto
termination
  by (relation "measure nat") auto

declare bitlen.simps [simp del]

text \<open>\<open>ilog2 a d\<close> is the integer \<open>k\<close> with \<open>2 ^ k \<le> a / d < 2 ^ (k + 1)\<close>, for positive
  \<open>a\<close> and \<open>d\<close>.\<close>

definition ilog2 :: "int \<Rightarrow> int \<Rightarrow> int" where
  "ilog2 a d = (let k = bitlen a - bitlen d in
     if (if k \<ge> 0 then d * 2 ^ nat k \<le> a else d \<le> a * 2 ^ nat (- k)) then k else k - 1)"

text \<open>
  \<open>binary64 n d\<close> is the exact quotient \<open>n / d\<close> (\<open>d > 0\<close>) rounded to the nearest binary64
  number, ties to even: 53 significant bits, exponent of the last place at least
  \<open>-1074\<close> (below that the subnormal numbers and zero), and an infinity when the rounded
  value reaches \<open>2 ^ 1024\<close>.
\<close>

definition binary64 :: "int \<Rightarrow> int \<Rightarrow> pyfloat" where
  "binary64 n d = (if n = 0 then Finite 0 0 else
     let a = \<bar>n\<bar>; e = max (ilog2 a d - 52) (- 1074);
         m = (if e \<ge> 0 then rne_div a (d * 2 ^ nat e) else rne_div (a * 2 ^ nat (- e)) d)
     in if e \<ge> 0 \<and> m * 2 ^ nat e \<ge> 2 ^ 1024 then (if n > 0 then PosInf else NegInf)
        else Finite (if n > 0 then m else - m) e)"

text \<open>The exact value \<open>n * 2 ^ x\<close> rounded to binary64.\<close>

definition binary64_scaled :: "int \<Rightarrow> int \<Rightarrow> pyfloat" where
  "binary64_scaled n x = (if x \<ge> 0 then binary64 (n * 2 ^ nat x) 1 else binary64 n (2 ^ nat (- x)))"

datatype error =
    InvalidDate
  | InvalidAmount
  | NonPositiveAmount
  | DuplicateTransaction
  | NaNToInteger
  | OverflowError
  | UnpackError
  | ZeroDivisionError
  | IntegrityError
  | DatabaseFull

text \<open>Conversion of a Python \<open>int\<close> to \<open>float\<close>, as in \<open>cents / 100.0\<close> and \<open>valor * 100\<close>:
  correctly rounded, \<open>OverflowError\<close> when the integer is too large.\<close>

definition float_of_int :: "int \<Rightarrow> error + pyfloat" where
  "float_of_int c = (case binary64 c 1 of
       PosInf \<Rightarrow> Inl OverflowError
     | NegInf \<Rightarrow> Inl OverflowError
     | x \<Rightarrow> Inr x)"

definition float_sign :: "pyfloat \<Rightarrow> int" where
  "float_sign x = (case x of Finite m e \<Rightarrow> sgn m | PosInf \<Rightarrow> 1 | NegInf \<Rightarrow> - 1 | NaN \<Rightarrow> 0)"

text \<open>\<open>x * y\<close> on floats.\<close>

definition float_mul :: "pyfloat \<Rightarrow> pyfloat \<Rightarrow> pyfloat" where
  "float_mul x y = (case (x, y) of
       (NaN, _) \<Rightarrow> NaN
     | (_, NaN) \<Rightarrow> NaN
     | (Finite m1 e1, Finite m2 e2) \<Rightarrow> binary64_scaled (m1 * m2) (e1 + e2)
     | _ \<Rightarrow> (let s = float_sign x * float_sign y in
              if s = 0 then NaN else if s > 0 then PosInf else NegInf))"

text \<open>\<open>x / y\<close> on floats; a zero divisor raises.\<close>

definition float_div :: "pyfloat \<Rightarrow> pyfloat \<Rightarrow> error + pyfloat" where
  "float_div x y = (case (x, y) of
       (NaN, _) \<Rightarrow> Inr NaN
     | (_, NaN) \<Rightarrow> Inr NaN
     | (Finite m1 e1, Finite m2 e2) \<Rightarrow>
         (if m2 = 0 then Inl ZeroDivisionError
          else let n = sgn m2 * m1; d = \<bar>m2\<bar>; x = e1 - e2 in
            Inr (if x \<ge> 0 then binary64 (n * 2 ^ nat x) d else binary64 n (d * 2 ^ nat (- x))))
     | (Finite m1 e1, _) \<Rightarrow> Inr (Finite 0 0)
     | (_, Finite m2 e2) \<Rightarrow>
         (if m2 = 0 then Inl ZeroDivisionError
          else Inr (if float_sign x * sgn m2 > 0 then PosInf else NegInf))
     | _ \<Rightarrow> Inr NaN)"

text \<open>\<open>x <= 0\<close> on a float.\<close>

definition float_le_zero :: "pyfloat \<Rightarrow> bool" where
  "float_le_zero x = (case x of Finite m e \<Rightarrow> m \<le> 0 | NegInf \<Rightarrow> True | _ \<Rightarrow> False)"

text \<open>\<open>round(x)\<close> with one argument: the nearest integer, ties to even; it raises on
  NaN and on the infinities.\<close>

definition py_round :: "pyfloat \<Rightarrow> error + int" where
  "py_round x = (case x of
       Finite m e \<Rightarrow> Inr (if e \<ge> 0 then m * 2 ^ nat e else rne_div m (2 ^ nat (- e)))
     | NaN \<Rightarrow> Inl NaNToInteger
     | _ \<Rightarrow> Inl OverflowError)"

subsection \<open>\<open>float(s)\<close>\<close>

text \<open>
  CPython's \<open>float\<close> on a string, in the steps of \<open>PyFloat_FromString\<close>: every
  non-ASCII whitespace character becomes a space and the text is cut at the first other
  character from U+007F on, which becomes \<open>?\<close>; ASCII whitespace is removed at both
  ends; underscores are accepted between two digits only and removed; what is left must
  be, as a whole, an optional sign followed by \<open>inf\<close>, \<open>infinity\<close> or \<open>nan\<close> in any
  case, or by a decimal numeral with an optional exponent. The numeral is rounded
  correctly to binary64.
\<close>

definition is_digit :: "char \<Rightarrow> bool" where
  "is_digit c = (48 \<le> code c \<and> code c \<le> 57)"

definition digit_val :: "char \<Rightarrow> int" where
  "digit_val c = code c - 48"

definition digits_val :: "string \<Rightarrow> int" where
  "digits_val ds = foldl (\<lambda>a c. 10 * a + digit_val c) 0 ds"

definition ascii_space :: "char \<Rightarrow> bool" where
  "ascii_space c = (code c \<in> {9, 10, 11, 12, 13, 32})"

fun to_ascii :: "string \<Rightarrow> string" where
  "to_ascii [] = []"
| "to_ascii (c # cs) =
     (if code c < 127 then c # to_ascii cs
      else if py_isspace c then CHR '' '' # to_ascii cs
      else ''?'')"

definition strip_ascii :: "string \<Rightarrow> string" where
  "strip_ascii s = rev (dropWhile ascii_space (rev (dropWhile ascii_space s)))"

text \<open>The loop of \<open>_Py_string_to_number_with_underscores\<close>, with the previous
  character passed along; \<open>None\<close> is its error exit.\<close>

fun drop_underscores :: "char option \<Rightarrow> string \<Rightarrow> string option" where
  "drop_underscores prev [] = (if prev = Some CHR ''_'' then None else Some [])"
| "drop_underscores prev (c # cs) =
     (if c = CHR ''_'' then
        (case prev of
           Some p \<Rightarrow> if is_digit p then drop_underscores (Some c) cs else None
         | None \<Rightarrow> None)
      else if prev = Some CHR ''_'' \<and> \<not> is_digit c then None
      else map_option ((#) c) (drop_underscores (Some c) cs))"

definition take_sign :: "string \<Rightarrow> bool \<times> string" where
  "take_sign s = (case s of
       [] \<Rightarrow> (False, [])
     | c # cs \<Rightarrow> if c = CHR ''-'' then (True, cs) else if c = CHR ''+'' then (False, cs)
                else (False, s))"

definition ascii_lower :: "char \<Rightarrow> char" where
  "ascii_lower c = (if 65 \<le> code c \<and> code c \<le> 90 then char_of (code c + 32) else c)"

text \<open>The exponent part: empty, or \<open>e\<close>/\<open>E\<close>, an optional sign and at least one digit.\<close>

definition exponent_part :: "string \<Rightarrow> int option" where
  "exponent_part s = (case s of
       [] \<Rightarrow> Some 0
     | c # cs \<Rightarrow>
         if c = CHR ''e'' \<or> c = CHR ''E'' then
           (let (neg, ds) = take_sign cs in
            if ds \<noteq> [] \<and> list_all is_digit ds
            then Some (if neg then - digits_val ds else digits_val ds) else None)
         else None)"

text \<open>The decimal value \<open>n * 10 ^ x\<close> rounded to binary64.\<close>

definition decimal_to_float :: "int \<Rightarrow> int \<Rightarrow> pyfloat" where
  "decimal_to_float n x =
     (if x \<ge> 0 then binary64 (n * 10 ^ nat x) 1 else binary64 n (10 ^ nat (- x)))"

definition string_to_double :: "string \<Rightarrow> pyfloat option" where
  "string_to_double s =
     (let (neg, r) = take_sign s; name = map ascii_lower r in
      if name = ''inf'' \<or> name = ''infinity'' then Some (if neg then NegInf else PosInf)
      else if name = ''nan'' then Some NaN
      else
        let ip = takeWhile is_digit r; r1 = dropWhile is_digit r;
            (fp, r2) = (case r1 of
                          [] \<Rightarrow> ([], [])
                        | c # cs \<Rightarrow>
                            if c = CHR ''.'' then (takeWhile is_digit cs, dropWhile is_digit cs)
                            else ([], r1))
        in if ip = [] \<and> fp = [] then None
           else (case exponent_part r2 of
                   None \<Rightarrow> None
                 | Some x \<Rightarrow>
                     let n = digits_val (ip @ fp) in
                     Some (decimal_to_float (if neg then - n else n) (x - int (length fp)))))"

definition py_float :: "string \<Rightarrow> pyfloat option" where
  "py_float s =
     (let t = strip_ascii (to_ascii s) in
      if CHR ''_'' \<in> set t
      then (case drop_underscores None t of None \<Rightarrow> None | Some u \<Rightarrow> string_to_double u)
      else string_to_double t)"

section \<open>Decimal text and calendar dates\<close>

definition digit_char :: "int \<Rightarrow> char" where
  "digit_char n = char_of (48 + n)"

text \<open>The decimal digits of a non-negative integer, as \<open>str(n)\<close> writes them.\<close>

function dec :: "int \<Rightarrow> string" where
  "dec n = (if n < 10 then [digit_char n] else dec (n div 10) @ [digit_char (n mod 10)])"
  by pat_completeness auto
termination
  by (relation "measure nat") auto

declare dec.simps [simp del]

text \<open>\<open>"%0wd" % n\<close> for a non-negative \<open>n\<close>.\<close>

definition zero_pad :: "nat \<Rightarrow> int \<Rightarrow> string" where
  "zero_pad w n = replicate (w - length (dec n)) CHR ''0'' @ dec n"

definition is_leap :: "int \<Rightarrow> bool" where
  "is_leap y = (y mod 4 = 0 \<and> (y mod 100 \<noteq> 0 \<or> y mod 400 = 0))"

definition days_in_month :: "int \<Rightarrow> int \<Rightarrow> int" where
  "days_in_month y m =
     (if m = 2 then (if is_leap y then 29 else 28)
      else if m \<in> {4, 6, 9, 11} then 30 else 31)"

text \<open>The check of the \<open>datetime\<close> constructor: years 1 to 9999, a month of the year,
  a day of the month.\<close>

definition valid_date :: "int \<Rightarrow> int \<Rightarrow> int \<Rightarrow> bool" where
  "valid_date y m d =
     (1 \<le> y \<and> y \<le> 9999 \<and> 1 \<le> m \<and> m \<le> 12 \<and> 1 \<le> d \<and> d \<le> days_in_month y m)"

text \<open>\<open>date.isoformat()\<close>.\<close>

definition isoformat :: "int \<Rightarrow> int \<Rightarrow> int \<Rightarrow> string" where
  "isoformat y m d = zero_pad 4 y @ ''-'' @ zero_pad 2 m @ ''-'' @ zero_pad 2 d"

subsection \<open>Texts beyond Latin-1\<close>

text \<open>
  \<open>strptime\<close> reads the decimal digits of every script, and \<open>strip\<close> removes the
  whitespace of all of Unicode. For the date normaliser a Python \<open>str\<close> is therefore
  modelled by the list of its code points, any integers. The tables are those of
  Unicode 14.0, which CPython 3.11 carries: the decimal digits (category \<open>Nd\<close>) come in
  66 runs of ten, each from its zero to its nine, and there are 29 whitespace
  characters.
\<close>

definition DECIMAL_ZEROS :: "int list" where
  "DECIMAL_ZEROS =
     [48, 1632, 1776, 1984, 2406, 2534, 2662, 2790, 2918, 3046, 3174, 3302, 3430, 3558, 3664,
      3792, 3872, 4160, 4240, 6112, 6160, 6470, 6608, 6784, 6800, 6992, 7088, 7232, 7248,
      42528, 43216, 43264, 43472, 43504, 43600, 44016, 65296, 66720, 68912, 69734, 69872,
      69942, 70096, 70384, 70736, 70864, 71248, 71360, 71472, 71904, 72016, 72784, 73040,
      73120, 92768, 92864, 93008, 120782, 120792, 120802, 120812, 120822, 123200, 123632,
      125264, 130032]"

text \<open>The value of a decimal digit, \<open>None\<close> for any other character.\<close>

definition decimal_value :: "int \<Rightarrow> int option" where
  "decimal_value c = map_option (\<lambda>z. c - z) (find (\<lambda>z. z \<le> c \<and> c \<le> z + 9) DECIMAL_ZEROS)"

definition is_decimal :: "int \<Rightarrow> bool" where
  "is_decimal c = (decimal_value c \<noteq> None)"

definition dval :: "int \<Rightarrow> int" where
  "dval c = (case decimal_value c of None \<Rightarrow> 0 | Some v \<Rightarrow> v)"

text \<open>\<open>int(s)\<close> for a text of decimal digits.\<close>

definition int_of_decimals :: "int list \<Rightarrow> int" where
  "int_of_decimals ds = foldl (\<lambda>a c. 10 * a + dval c) 0 ds"

definition UNICODE_SPACES :: "int list" where
  "UNICODE_SPACES =
     [9, 10, 11, 12, 13, 28, 29, 30, 31, 32, 133, 160, 5760, 8192, 8193, 8194, 8195, 8196,
      8197, 8198, 8199, 8200, 8201, 8202, 8232, 8233, 8239, 8287, 12288]"

definition uni_isspace :: "int \<Rightarrow> bool" where
  "uni_isspace c = (c \<in> set UNICODE_SPACES)"

text \<open>\<open>s.strip()\<close> on code points.\<close>

definition uni_strip :: "int list \<Rightarrow> int list" where
  "uni_strip s = rev (dropWhile uni_isspace (rev (dropWhile uni_isspace s)))"

subsection \<open>\<open>datetime.strptime\<close>\<close>

text \<open>
  \<open>strptime\<close> turns the format into a regular expression and matches it at the start
  of the text: \<open>%Y\<close> is \<open>\d\d\d\d\<close>, \<open>%m\<close> is \<open>1[0-2]|0[1-9]|[1-9]\<close> and \<open>%d\<close> is
  \<open>3[0-1]|[1-2]\d|0[1-9]|[1-9]| [1-9]\<close>. The class \<open>\d\<close> is any decimal digit; a
  literal character and a range such as \<open>[0-2]\<close> match the ASCII characters only. Each
  function below returns the matches of one piece in the order the regular expression
  tries them, as pairs of the value \<open>int\<close> reads from the piece and the text left; the
  first match of the whole sequence is the one \<open>strptime\<close> uses.
\<close>

definition in_range :: "char \<Rightarrow> char \<Rightarrow> int \<Rightarrow> bool" where
  "in_range lo hi c = (code lo \<le> c \<and> c \<le> code hi)"

definition is_char :: "char \<Rightarrow> int \<Rightarrow> bool" where
  "is_char ch c = (c = code ch)"

text \<open>One alternative made of a first character class and, when \<open>snd_cls\<close> is given,
  a second one. \<open>int\<close> skips the space of the last alternative of \<open>%d\<close>.\<close>

definition alt :: "(int \<Rightarrow> bool) \<Rightarrow> (int \<Rightarrow> bool) option \<Rightarrow> int list \<Rightarrow> (int \<times> int list) list" where
  "alt fst_cls snd_cls s =
     (case s of
        [] \<Rightarrow> []
      | a # r \<Rightarrow>
          if \<not> fst_cls a then []
          else (case snd_cls of
                  None \<Rightarrow> [(dval a, r)]
                | Some cls \<Rightarrow>
                    (case r of
                       [] \<Rightarrow> []
                     | b # r' \<Rightarrow>
                         if cls b
                         then [((if is_decimal a then 10 * dval a else 0) + dval b, r')]
                         else [])))"

definition re_Y :: "int list \<Rightarrow> (int \<times> int list) list" where
  "re_Y s = (if length s \<ge> 4 \<and> list_all is_decimal (take 4 s)
             then [(int_of_decimals (take 4 s), drop 4 s)] else [])"

definition re_m :: "int list \<Rightarrow> (int \<times> int list) list" where
  "re_m s = alt (is_char CHR ''1'') (Some (in_range CHR ''0'' CHR ''2'')) s
          @ alt (is_char CHR ''0'') (Some (in_range CHR ''1'' CHR ''9'')) s
          @ alt (in_range CHR ''1'' CHR ''9'') None s"

definition re_d :: "int list \<Rightarrow> (int \<times> int list) list" where
  "re_d s = alt (is_char CHR ''3'') (Some (in_range CHR ''0'' CHR ''1'')) s
          @ alt (in_range CHR ''1'' CHR ''2'') (Some is_decimal) s
          @ alt (is_char CHR ''0'') (Some (in_range CHR ''1'' CHR ''9'')) s
          @ alt (in_range CHR ''1'' CHR ''9'') None s
          @ alt (is_char CHR '' '') (Some (in_range CHR ''1'' CHR ''9'')) s"

definition re_lit :: "char \<Rightarrow> int list \<Rightarrow> int list list" where
  "re_lit c s = (case s of [] \<Rightarrow> [] | a # r \<Rightarrow> if a = code c then [r] else [])"

text \<open>All matches of \<open>%Y-%m-%d\<close> and of \<open>%d/%m/%Y\<close>, as (year, month, day, text left).\<close>

definition match_ymd :: "int list \<Rightarrow> (int \<times> int \<times> int \<times> int list) list" where
  "match_ymd s =
     [(y, m, d, r5).
        (y, r1) \<leftarrow> re_Y s, r2 \<leftarrow> re_lit CHR ''-'' r1, (m, r3) \<leftarrow> re_m r2,
        r4 \<leftarrow> re_lit CHR ''-'' r3, (d, r5) \<leftarrow> re_d r4]"

definition match_dmy :: "int list \<Rightarrow> (int \<times> int \<times> int \<times> int list) list" where
  "match_dmy s =
     [(y, m, d, r5).
        (d, r1) \<leftarrow> re_d s, r2 \<leftarrow> re_lit CHR ''/'' r1, (m, r3) \<leftarrow> re_m r2,
        r4 \<leftarrow> re_lit CHR ''/'' r3, (y, r5) \<leftarrow> re_Y r4]"

text \<open>\<open>datetime.strptime(s, fmt).date().isoformat()\<close> from the matches of \<open>fmt\<close>; \<open>None\<close>
  is a \<open>ValueError\<close>: no match, text left over after the first match, or no such date.\<close>

definition strptime_iso :: "(int \<times> int \<times> int \<times> int list) list \<Rightarrow> string option" where
  "strptime_iso ms =
     (case ms of
        [] \<Rightarrow> None
      | (y, m, d, r) # _ \<Rightarrow>
          if r \<noteq> [] then None
          else if valid_date y m d then Some (isoformat y m d) else None)"

section \<open>Validation\<close>

text \<open>\<open>normalize_date_to_iso\<close> on a text given by its code points: the two formats are
  tried in the order of the loop.\<close>

definition normalize_date_codepoints :: "int list \<Rightarrow> error + string" where
  "normalize_date_codepoints date_str =
     (let date_str = uni_strip date_str in
      case strptime_iso (match_ymd date_str) of
        Some res \<Rightarrow> Inr res
      | None \<Rightarrow>
          (case strptime_iso (match_dmy date_str) of
             Some res \<Rightarrow> Inr res
           | None \<Rightarrow> Inl InvalidDate))"

text \<open>\<open>normalize_date_to_iso\<close> on a Latin-1 text, as the rest of the model passes it.\<close>

definition normalize_date_to_iso :: "string \<Rightarrow> error + string" where
  "normalize_date_to_iso date_str = normalize_date_codepoints (map code date_str)"

text \<open>
  \<open>parse_amount_to_cents\<close>: the amount text to an integer number of cents. A failing
  \<open>float\<close> is caught and raised again as the "Valor invalido" error
  (\<open>InvalidAmount\<close>); a value \<open><= 0\<close> raises \<open>NonPositiveAmount\<close>; the errors of
  \<open>round\<close> are not caught.
\<close>

definition parse_amount_to_cents :: "string \<Rightarrow> error + int" where
  "parse_amount_to_cents value_str =
     (let s = py_replace '' '' '''' (py_replace ''R$'' '''' (py_strip value_str));
          s = (if py_in ''.'' s \<and> py_in '','' s
               then py_replace '','' ''.'' (py_replace ''.'' '''' s)
               else if py_in '','' s then py_replace '','' ''.'' s
               else s)
      in case py_float s of
           None \<Rightarrow> Inl InvalidAmount
         | Some valor \<Rightarrow>
             if float_le_zero valor then Inl NonPositiveAmount
             else (case float_of_int 100 of
                     Inl e \<Rightarrow> Inl e
                   | Inr hundred \<Rightarrow> py_round (float_mul valor hundred)))"

subsection \<open>Vocabularies\<close>

datatype ExpenseOrIncome = Expense | Income

definition EXPENSE_CATEGORIES :: "string list" where
  "EXPENSE_CATEGORIES =
     [''Alimenta'' @ [CHR 0xE7, CHR 0xE3] @ ''o'', ''Moradia'', ''Transporte'',
      ''Sa'' @ [CHR 0xFA] @ ''de'', ''Educa'' @ [CHR 0xE7, CHR 0xE3] @ ''o'', ''Lazer'',
      ''Vestu'' @ [CHR 0xE1] @ ''rio'', ''Impostos'', ''Assinaturas'', ''Pets'',
      ''Doa'' @ [CHR 0xE7, CHR 0xF5] @ ''es'', ''Outros'']"

definition INCOME_CATEGORIES :: "string list" where
  "INCOME_CATEGORIES =
     [''Sal'' @ [CHR 0xE1] @ ''rio'', ''Vendas'', ''Investimentos'', ''Presente'',
      ''Reembolso'', ''Outros'']"

definition PAYMENT_METHODS :: "string list" where
  "PAYMENT_METHODS =
     [''pix'', ''d'' @ [CHR 0xE9] @ ''bito'', ''cr'' @ [CHR 0xE9] @ ''dito'', ''dinheiro'',
      ''boleto'', ''transfer'' @ [CHR 0xEA] @ ''ncia'']"

text \<open>\<open>x or y\<close> on strings: the empty string is the only false one.\<close>

definition py_or :: "string \<Rightarrow> string \<Rightarrow> string" where
  "py_or x y = (if x = [] then y else x)"

text \<open>
  The two validators return a value and may print an advisory. The value is the
  function below; the advisory is modelled by the condition under which \<open>print\<close> runs.
\<close>

definition validate_category :: "ExpenseOrIncome \<Rightarrow> string \<Rightarrow> string" where
  "validate_category kind category = (let cat = py_or (py_strip category) ''Outros'' in cat)"

definition validate_category_warns :: "ExpenseOrIncome \<Rightarrow> string \<Rightarrow> bool" where
  "validate_category_warns kind category =
     (let allowed = (if kind = Income then INCOME_CATEGORIES else EXPENSE_CATEGORIES);
          cat = py_or (py_strip category) ''Outros''
      in cat \<notin> set allowed)"

definition validate_payment_method :: "string \<Rightarrow> string" where
  "validate_payment_method method = (let m = py_lower (py_strip method) in py_or m ''pix'')"

definition validate_payment_method_warns :: "string \<Rightarrow> bool" where
  "validate_payment_method_warns method =
     (let m = py_lower (py_strip method) in m \<noteq> [] \<and> m \<notin> set PAYMENT_METHODS)"

section \<open>Model and storage\<close>

record Transaction =
  kind :: ExpenseOrIncome
  date_iso :: string
  amount_cents :: int
  category :: string
  description :: string
  account :: string
  payment_method :: string
  tags :: "string option"

text \<open>
  A row of the table \<open>transactions\<close> created by \<open>init_db\<close>. The columns declared
  without \<open>NOT NULL\<close> may hold \<open>NULL\<close> (\<open>None\<close>). The column \<open>type\<close> holds one of the two
  texts its \<open>CHECK\<close> allows.
\<close>

record row =
  col_id :: int
  col_type :: ExpenseOrIncome
  col_date :: string
  col_amount_cents :: int
  col_category :: string
  col_description :: "string option"
  col_account :: "string option"
  col_payment_method :: "string option"
  col_tags :: "string option"
  col_created_at :: string
  col_updated_at :: string

text \<open>
  The database file: the rows of the table and the counter that \<open>AUTOINCREMENT\<close> keeps
  in \<open>sqlite_sequence\<close> (the largest id ever given). Every function opens its own
  connection to the same file, so the state is passed in and the new state returned.
  The file is taken to be initialised by \<open>init_db\<close> and readable.
\<close>

record database =
  table_rows :: "row list"
  sequence :: int

text \<open>An SQLite \<open>INTEGER\<close> has 64 bits; binding a larger Python \<open>int\<close> raises
  \<open>OverflowError\<close>.\<close>

definition fits_int64 :: "int \<Rightarrow> bool" where
  "fits_int64 n = (- (2 ^ 63) \<le> n \<and> n < 2 ^ 63)"

text \<open>The id \<open>AUTOINCREMENT\<close> gives to the next row: one more than the largest id in the
  table or ever given. Ids are 64-bit integers: once the largest one, \<open>2 ^ 63 - 1\<close>, has
  been used, no id is left.\<close>

definition next_rowid :: "database \<Rightarrow> int" where
  "next_rowid db = foldr max (map col_id (table_rows db)) (sequence db) + 1"

definition ids_exhausted :: "database \<Rightarrow> bool" where
  "ids_exhausted db = (2 ^ 63 \<le> next_rowid db)"

text \<open>
  The \<open>INSERT\<close> of \<open>save_transaction\<close>, inside \<open>with get_conn() as conn\<close>: committed when
  it succeeds, rolled back (the state unchanged) when it raises. It raises, in this
  order, \<open>OverflowError\<close> when the amount does not fit an \<open>INTEGER\<close> (on binding),
  \<open>DatabaseFull\<close> (SQLite's "database or disk is full") when no id is left, and
  \<open>IntegrityError\<close> when \<open>CHECK(amount_cents > 0)\<close> fails. Failures of the file system
  are outside the model.
\<close>

definition insert_row :: "database \<Rightarrow> Transaction \<Rightarrow> string \<Rightarrow> (error + int) \<times> database" where
  "insert_row db tx now =
     (if \<not> fits_int64 (amount_cents tx) then (Inl OverflowError, db)
      else if ids_exhausted db then (Inl DatabaseFull, db)
      else if \<not> amount_cents tx > 0 then (Inl IntegrityError, db)
      else
        (Inr (next_rowid db),
         \<lparr>table_rows = table_rows db @
            [\<lparr>col_id = next_rowid db, col_type = kind tx, col_date = date_iso tx,
              col_amount_cents = amount_cents tx, col_category = category tx,
              col_description = Some (description tx), col_account = Some (account tx),
              col_payment_method = Some (payment_method tx), col_tags = tags tx,
              col_created_at = now, col_updated_at = now\<rparr>],
           sequence = next_rowid db\<rparr>))"

text \<open>\<open>IFNULL(x, '')\<close>.\<close>

definition ifnull :: "string option \<Rightarrow> string" where
  "ifnull x = (case x of None \<Rightarrow> [] | Some s \<Rightarrow> s)"

text \<open>The \<open>WHERE\<close> clause of \<open>is_duplicate\<close>.\<close>

definition matches :: "Transaction \<Rightarrow> row \<Rightarrow> bool" where
  "matches tx r =
     (col_type r = kind tx \<and> col_date r = date_iso tx \<and> col_amount_cents r = amount_cents tx
      \<and> col_category r = category tx \<and> ifnull (col_description r) = py_or (description tx) [])"

section \<open>Persistence\<close>

definition is_duplicate :: "database \<Rightarrow> Transaction \<Rightarrow> error + bool" where
  "is_duplicate db tx =
     (if \<not> fits_int64 (amount_cents tx) then Inl OverflowError
      else Inr (int (length (filter (matches tx) (table_rows db))) > 0))"

text \<open>\<open>datetime.utcnow()\<close> is an input of the model.\<close>

record datetime =
  dt_year :: int
  dt_month :: int
  dt_day :: int
  dt_hour :: int
  dt_minute :: int
  dt_second :: int
  dt_microsecond :: int

text \<open>\<open>dt.isoformat(timespec="seconds")\<close> of a datetime without time zone.\<close>

definition isoformat_seconds :: "datetime \<Rightarrow> string" where
  "isoformat_seconds dt =
     isoformat (dt_year dt) (dt_month dt) (dt_day dt) @ ''T'' @ zero_pad 2 (dt_hour dt) @ '':''
       @ zero_pad 2 (dt_minute dt) @ '':'' @ zero_pad 2 (dt_second dt)"

definition save_transaction ::
  "database \<Rightarrow> datetime \<Rightarrow> Transaction \<Rightarrow> bool \<Rightarrow> (error + int) \<times> database" where
  "save_transaction db utcnow tx allow_duplicate =
     (case (if allow_duplicate then Inr False else is_duplicate db tx) of
        Inl e \<Rightarrow> (Inl e, db)
      | Inr True \<Rightarrow> (Inl DuplicateTransaction, db)
      | Inr False \<Rightarrow>
          (let now = isoformat_seconds utcnow @ ''Z'' in insert_row db tx now))"

section \<open>High-level API\<close>

definition add_transaction ::
  "ExpenseOrIncome \<Rightarrow> database \<Rightarrow> datetime \<Rightarrow> string \<Rightarrow> string \<Rightarrow> string \<Rightarrow> string \<Rightarrow> string
     \<Rightarrow> string \<Rightarrow> string option \<Rightarrow> bool \<Rightarrow> (error + int) \<times> database" where
  "add_transaction k db utcnow date_str amount_str category' description' account'
       payment_method' tags' allow_duplicate =
     (case normalize_date_to_iso date_str of
        Inl e \<Rightarrow> (Inl e, db)
      | Inr date_iso' \<Rightarrow>
          (case parse_amount_to_cents amount_str of
             Inl e \<Rightarrow> (Inl e, db)
           | Inr cents \<Rightarrow>
               (let cat = validate_category k category';
                    method = validate_payment_method payment_method';
                    tx = \<lparr>kind = k, date_iso = date_iso', amount_cents = cents, category = cat,
                          description = py_strip description',
                          account = py_or (py_strip account') ''principal'',
                          payment_method = method, tags = tags'\<rparr>
                in save_transaction db utcnow tx allow_duplicate)))"

text \<open>\<open>add_expense\<close> and \<open>add_income\<close> are the same text with the kind fixed.\<close>

definition add_expense ::
  "database \<Rightarrow> datetime \<Rightarrow> string \<Rightarrow> string \<Rightarrow> string \<Rightarrow> string \<Rightarrow> string
     \<Rightarrow> string \<Rightarrow> string option \<Rightarrow> bool \<Rightarrow> (error + int) \<times> database" where
  "add_expense = add_transaction Expense"

definition add_income ::
  "database \<Rightarrow> datetime \<Rightarrow> string \<Rightarrow> string \<Rightarrow> string \<Rightarrow> string \<Rightarrow> string
     \<Rightarrow> string \<Rightarrow> string option \<Rightarrow> bool \<Rightarrow> (error + int) \<times> database" where
  "add_income = add_transaction Income"

section \<open>Utilities\<close>

text \<open>\<open>f"{x:.2f}"\<close>: the exact value of the float rounded to two decimals, ties to
  even.\<close>

definition format_2f :: "pyfloat \<Rightarrow> string" where
  "format_2f x = (case x of
       Finite m e \<Rightarrow>
         (let n = (if e \<ge> 0 then \<bar>m\<bar> * 2 ^ nat e * 100 else rne_div (\<bar>m\<bar> * 100) (2 ^ nat (- e)))
          in (if m < 0 then ''-'' else []) @ dec (n div 100) @ ''.'' @ zero_pad 2 (n mod 100))
     | PosInf \<Rightarrow> ''inf''
     | NegInf \<Rightarrow> ''-inf''
     | NaN \<Rightarrow> ''nan'')"

text \<open>\<open>range(n, 0, -3)\<close>.\<close>

function range_down3 :: "int \<Rightarrow> int list" where
  "range_down3 i = (if i > 0 then i # range_down3 (i - 3) else [])"
  by pat_completeness auto
termination
  by (relation "measure nat") auto

declare range_down3.simps [simp del]

text \<open>\<open>s[a:b]\<close> for \<open>0 \<le> a \<le> b \<le> len(s)\<close>.\<close>

definition py_slice :: "string \<Rightarrow> int \<Rightarrow> int \<Rightarrow> string" where
  "py_slice s a b = take (nat (b - a)) (drop (nat a) s)"

text \<open>
  \<open>cents_to_brl\<close>. The first assignment to \<open>inteiro_com_pontos\<close> (line 214) is
  overwritten by the second before any use and cannot raise; the model has the second.
\<close>

definition cents_to_brl :: "int \<Rightarrow> error + string" where
  "cents_to_brl cents =
     (case float_of_int cents of
        Inl e \<Rightarrow> Inl e
      | Inr c \<Rightarrow>
          (case float_div c (Finite 100 0) of
             Inl e \<Rightarrow> Inl e
           | Inr valor \<Rightarrow>
               (case py_split CHR ''.'' (format_2f valor) of
                  [inteiro, frac] \<Rightarrow>
                    (let inteiro_com_pontos =
                       py_or (py_join ''.''
                                (rev (map (\<lambda>i. py_slice inteiro (max (i - 3) 0) i)
                                        (range_down3 (int (length inteiro))))))
                             ''0''
                     in Inr (''R$ '' @ inteiro_com_pontos @ '','' @ frac))
                | _ \<Rightarrow> Inl UnpackError)))"

text \<open>
  The query of \<open>list_last\<close>: \<open>ORDER BY date DESC, id DESC LIMIT n\<close>. Dates are compared
  as texts. A negative \<open>LIMIT\<close> is no limit in SQLite; an \<open>n\<close> outside 64 bits raises
  when it is bound.
\<close>

definition select_last :: "database \<Rightarrow> int \<Rightarrow> error + row list" where
  "select_last db n =
     (if \<not> fits_int64 n then Inl OverflowError
      else let ordered = rev (sort_key (\<lambda>r. (col_date r, col_id r)) (table_rows db))
           in Inr (if n < 0 then ordered else take (nat n) ordered))"

text \<open>\<open>list_last\<close> reads inside \<open>with get_conn() as conn\<close> and writes nothing: the state
  comes back as it was. The lines it prints from the rows are left out of the model.\<close>

definition list_last :: "database \<Rightarrow> int \<Rightarrow> (error + row list) \<times> database" where
  "list_last db n = (select_last db n, db)"

text \<open>The order of \<open>ORDER BY date DESC, id DESC\<close>: the first row comes no later than the
  second.\<close>

definition newer_first :: "row \<Rightarrow> row \<Rightarrow> bool" where
  "newer_first a b =
     (col_date b < col_date a \<or> (col_date a = col_date b \<and> col_id b \<le> col_id a))"

section \<open>The specification's wording\<close>

text \<open>
  The Money Parser as the specification words it: a leading currency marker and all
  whitespace are stripped, the separators are disambiguated, the text is read as a
  decimal number and converted to cents. Reading and converting are the steps of the
  source.
\<close>

definition strip_marker_and_whitespace :: "string \<Rightarrow> string" where
  "strip_marker_and_whitespace raw =
     (let t = filter (\<lambda>c. \<not> py_isspace c) raw in if prefix ''R$'' t then drop 2 t else t)"

definition comma_to_dot :: "char \<Rightarrow> char" where
  "comma_to_dot c = (if c = CHR '','' then CHR ''.'' else c)"

definition disambiguate :: "string \<Rightarrow> string" where
  "disambiguate s =
     (if CHR ''.'' \<in> set s \<and> CHR '','' \<in> set s
      then map comma_to_dot (filter (\<lambda>c. c \<noteq> CHR ''.'') s)
      else if CHR '','' \<in> set s then map comma_to_dot s
      else s)"

definition decimal_cents :: "string \<Rightarrow> error + int" where
  "decimal_cents s =
     (case py_float s of
        None \<Rightarrow> Inl InvalidAmount
      | Some valor \<Rightarrow>
          if float_le_zero valor then Inl NonPositiveAmount
          else (case float_of_int 100 of
                  Inl e \<Rightarrow> Inl e
                | Inr hundred \<Rightarrow> py_round (float_mul valor hundred)))"

definition parseAmount_spec :: "string \<Rightarrow> error + int" where
  "parseAmount_spec raw = decimal_cents (disambiguate (strip_marker_and_whitespace raw))"

text \<open>The two input shapes of the Date Normalizer as the specification writes them:
  \<open>YYYY-MM-DD\<close> and \<open>DD/MM/YYYY\<close>, every letter a digit.\<close>

definition shape_ymd :: "string \<Rightarrow> bool" where
  "shape_ymd s =
     (case s of
        [y1, y2, y3, y4, s1, m1, m2, s2, d1, d2] \<Rightarrow>
          list_all is_digit [y1, y2, y3, y4, m1, m2, d1, d2] \<and> s1 = CHR ''-'' \<and> s2 = CHR ''-''
      | _ \<Rightarrow> False)"

definition shape_dmy :: "string \<Rightarrow> bool" where
  "shape_dmy s =
     (case s of
        [d1, d2, s1, m1, m2, s2, y1, y2, y3, y4] \<Rightarrow>
          list_all is_digit [d1, d2, m1, m2, y1, y2, y3, y4] \<and> s1 = CHR ''/'' \<and> s2 = CHR ''/''
      | _ \<Rightarrow> False)"

text \<open>A text without whitespace at either end.\<close>

definition stripped :: "string \<Rightarrow> bool" where
  "stripped t = (t = [] \<or> (\<not> py_isspace (hd t) \<and> \<not> py_isspace (last t)))"

section \<open>Sample data\<close>

text \<open>A stored expense without description, a transaction that duplicates it, two clock
  readings, the empty database and the database after one \<open>add_expense\<close>.\<close>

definition db0 :: database where
  "db0 = \<lparr>table_rows =
     [\<lparr>col_id = 1, col_type = Expense, col_date = ''2024-03-05'', col_amount_cents = 1250,
       col_category = ''Lazer'', col_description = None, col_account = Some ''principal'',
       col_payment_method = Some ''pix'', col_tags = None,
       col_created_at = ''2024-03-05T01:02:03Z'', col_updated_at = ''2024-03-05T01:02:03Z''\<rparr>],
     sequence = 1\<rparr>"

definition tx0 :: Transaction where
  "tx0 = \<lparr>kind = Expense, date_iso = ''2024-03-05'', amount_cents = 1250, category = ''Lazer'',
          description = [], account = ''poupanca'', payment_method = ''boleto'', tags = Some ''a,b''\<rparr>"

definition now0 :: datetime where
  "now0 = \<lparr>dt_year = 2024, dt_month = 3, dt_day = 5, dt_hour = 1, dt_minute = 2, dt_second = 3,
           dt_microsecond = 77\<rparr>"

definition now1 :: datetime where
  "now1 = \<lparr>dt_year = 2024, dt_month = 3, dt_day = 6, dt_hour = 10, dt_minute = 20, dt_second = 30,
           dt_microsecond = 0\<rparr>"

definition empty_db :: database where
  "empty_db = \<lparr>table_rows = [], sequence = 0\<rparr>"

definition db1 :: database where
  "db1 = \<lparr>table_rows =
     [\<lparr>col_id = 1, col_type = Expense, col_date = ''2024-03-05'', col_amount_cents = 1250,
       col_category = ''Lazer'', col_description = Some ''cinema'', col_account = Some ''principal'',
       col_payment_method = Some ''pix'', col_tags = None,
       col_created_at = ''2024-03-05T01:02:03Z'', col_updated_at = ''2024-03-05T01:02:03Z''\<rparr>],
     sequence = 1\<rparr>"

text \<open>A database with two rows on different dates.\<close>

definition db2 :: database where
  "db2 = \<lparr>table_rows =
     [\<lparr>col_id = 1, col_type = Expense, col_date = ''2024-03-05'', col_amount_cents = 1250,
       col_category = ''Lazer'', col_description = Some ''cinema'', col_account = Some ''principal'',
       col_payment_method = Some ''pix'', col_tags = None,
       col_created_at = ''2024-03-05T01:02:03Z'', col_updated_at = ''2024-03-05T01:02:03Z''\<rparr>,
      \<lparr>col_id = 2, col_type = Income, col_date = ''2024-04-01'', col_amount_cents = 500000,
       col_category = ''Vendas'', col_description = None, col_account = Some ''principal'',
       col_payment_method = Some ''pix'', col_tags = None,
       col_created_at = ''2024-04-01T08:00:00Z'', col_updated_at = ''2024-04-01T08:00:00Z''\<rparr>],
     sequence = 2\<rparr>"

text \<open>A database whose newest row has the largest id of a 64-bit \<open>INTEGER\<close>, and one whose
  newest row has the id before it.\<close>

definition db_last :: database where
  "db_last = \<lparr>table_rows =
     [\<lparr>col_id = 2 ^ 63 - 1, col_type = Income, col_date = ''2023-01-01'', col_amount_cents = 100,
       col_category = ''Vendas'', col_description = None, col_account = Some ''principal'',
       col_payment_method = Some ''pix'', col_tags = None,
       col_created_at = ''2023-01-01T00:00:00Z'', col_updated_at = ''2023-01-01T00:00:00Z''\<rparr>],
     sequence = 2 ^ 63 - 1\<rparr>"

definition db_near :: database where
  "db_near = \<lparr>table_rows =
     [\<lparr>col_id = 2 ^ 63 - 2, col_type = Income, col_date = ''2023-01-01'', col_amount_cents = 100,
       col_category = ''Vendas'', col_description = None, col_account = Some ''principal'',
       col_payment_method = Some ''pix'', col_tags = None,
       col_created_at = ''2023-01-01T00:00:00Z'', col_updated_at = ''2023-01-01T00:00:00Z''\<rparr>],
     sequence = 2 ^ 63 - 2\<rparr>"

text \<open>
  The texts the Date Normalizer accepts for a year, a month and a day, as the amended
  claim describes them, on code points. A year is four decimal digits of any script. A
  month is one or two ASCII digits with a value from 1 to 12. A day is one ASCII digit
  from 1 to 9; or two digits with a value from 1 to 31, the first an ASCII digit and the
  second an ASCII digit too unless the first is 1 or 2, when it is a decimal digit of
  any script; or a space and one ASCII digit from 1 to 9. \<open>day_val\<close> reads the day past
  the space.
\<close>

definition ascii_digit :: "int \<Rightarrow> bool" where
  "ascii_digit c = (48 \<le> c \<and> c \<le> 57)"

definition year_text :: "int list \<Rightarrow> bool" where
  "year_text Y = (length Y = 4 \<and> list_all is_decimal Y)"

definition month_text :: "int list \<Rightarrow> bool" where
  "month_text M =
     ((length M = 1 \<or> length M = 2) \<and> list_all ascii_digit M
      \<and> 1 \<le> int_of_decimals M \<and> int_of_decimals M \<le> 12)"

definition day_text :: "int list \<Rightarrow> bool" where
  "day_text D =
     ((length D = 1 \<and> ascii_digit (hd D) \<and> 1 \<le> int_of_decimals D)
      \<or> (length D = 2 \<and> ascii_digit (hd D) \<and> is_decimal (last D)
          \<and> (hd D = 49 \<or> hd D = 50 \<or> ascii_digit (last D))
          \<and> 1 \<le> int_of_decimals D \<and> int_of_decimals D \<le> 31)
      \<or> (length D = 2 \<and> hd D = 32 \<and> ascii_digit (last D) \<and> 1 \<le> dval (last D)))"

definition day_val :: "int list \<Rightarrow> int" where
  "day_val D = int_of_decimals (filter is_decimal D)"

text \<open>
  A reading of the clock as \<open>datetime.utcnow()\<close> can return it: a real calendar date and
  a time of the day.
\<close>

definition valid_clock :: "datetime \<Rightarrow> bool" where
  "valid_clock dt =
     (valid_date (dt_year dt) (dt_month dt) (dt_day dt)
      \<and> 0 \<le> dt_hour dt \<and> dt_hour dt \<le> 23 \<and> 0 \<le> dt_minute dt \<and> dt_minute dt \<le> 59
      \<and> 0 \<le> dt_second dt \<and> dt_second dt \<le> 59
      \<and> 0 \<le> dt_microsecond dt \<and> dt_microsecond dt \<le> 999999)"

text \<open>
  A UTC timestamp of second precision with the suffix \<open>Z\<close>, as the specification
  describes it, is a text of the shape \<open>YYYY-MM-DDTHH:MM:SSZ\<close>. \<open>read_stamp\<close> checks the
  shape and reads year, month, day, hour, minute and second from it.
\<close>

definition read_stamp :: "string \<Rightarrow> (int \<times> int \<times> int \<times> int \<times> int \<times> int) option" where
  "read_stamp s =
     (if length s = 20
         \<and> list_all is_digit (take 4 s) \<and> s ! 4 = CHR ''-''
         \<and> list_all is_digit (take 2 (drop 5 s)) \<and> s ! 7 = CHR ''-''
         \<and> list_all is_digit (take 2 (drop 8 s)) \<and> s ! 10 = CHR ''T''
         \<and> list_all is_digit (take 2 (drop 11 s)) \<and> s ! 13 = CHR '':''
         \<and> list_all is_digit (take 2 (drop 14 s)) \<and> s ! 16 = CHR '':''
         \<and> list_all is_digit (take 2 (drop 17 s)) \<and> s ! 19 = CHR ''Z''
      then Some (digits_val (take 4 s), digits_val (take 2 (drop 5 s)),
                 digits_val (take 2 (drop 8 s)), digits_val (take 2 (drop 11 s)),
                 digits_val (take 2 (drop 14 s)), digits_val (take 2 (drop 17 s)))
      else None)"

section \<open>Properties of the validators\<close>

lemma last_dropWhile_ne: "dropWhile P xs \<noteq> [] \<Longrightarrow> last (dropWhile P xs) = last xs"
  by (induction xs) (auto split: if_splits)

lemma py_strip_stripped: "stripped (py_strip s)"
proof -
  define v where "v = dropWhile py_isspace s"
  define w where "w = dropWhile py_isspace (rev v)"
  have t: "py_strip s = rev w" by (simp add: py_strip_def v_def w_def)
  show ?thesis
  proof (cases "w = []")
    case True then show ?thesis by (simp add: t stripped_def)
  next
    case False
    then have vne: "v \<noteq> []" by (auto simp: w_def)
    have "\<not> py_isspace (hd w)" using False hd_dropWhile[of py_isspace "rev v"] by (simp add: w_def)
    moreover have "last w = last (rev v)" using False last_dropWhile_ne[of py_isspace "rev v"] by (simp add: w_def)
    moreover have "\<not> py_isspace (hd v)" using vne hd_dropWhile[of py_isspace s] by (simp add: v_def)
    ultimately show ?thesis using False vne
      by (simp add: t stripped_def hd_rev last_rev)
  qed
qed

lemma stripped_py_strip: "stripped t \<Longrightarrow> py_strip t = t"
proof (cases "t = []")
  case True then show ?thesis by (simp add: py_strip_def)
next
  case False
  assume "stripped t"
  with False have h: "\<not> py_isspace (hd t)" and l: "\<not> py_isspace (last t)" by (auto simp: stripped_def)
  from False h have 1: "dropWhile py_isspace t = t" by (cases t) auto
  from False l have 2: "dropWhile py_isspace (rev t) = rev t" by (cases "rev t") (auto simp: last_rev[symmetric] hd_rev)
  show ?thesis by (simp add: py_strip_def 1 2)
qed

lemma py_strip_idem: "py_strip (py_strip s) = py_strip s"
  by (rule stripped_py_strip[OF py_strip_stripped])

lemma code_range: "0 \<le> code c \<and> code c < 256"
  unfolding code_def by (simp add: of_char_def) 

lemma code_char_of: "0 \<le> n \<Longrightarrow> n < 256 \<Longrightarrow> code (char_of n) = n"
  unfolding code_def by (simp add: of_char_of)

lemma code_lower_char:
  "code (lower_char c) =
     (if (65 \<le> code c \<and> code c \<le> 90) \<or> (192 \<le> code c \<and> code c \<le> 222 \<and> code c \<noteq> 215)
      then code c + 32 else code c)"
  by (auto simp: lower_char_def Let_def code_char_of)

lemma code_inj: "code a = code b \<Longrightarrow> a = b"
  unfolding code_def by simp

lemma lower_char_idem: "lower_char (lower_char c) = lower_char c"
  by (rule code_inj) (auto simp: code_lower_char)

lemma isspace_lower_char: "py_isspace (lower_char c) = py_isspace c"
  unfolding py_isspace_def code_lower_char by auto

lemma py_lower_idem: "py_lower (py_lower s) = py_lower s"
  by (simp add: py_lower_def lower_char_idem)

lemma py_strip_lower: "py_strip (py_lower s) = py_lower (py_strip s)"
proof -
  have c: "py_isspace \<circ> lower_char = py_isspace" by (rule ext) (simp add: isspace_lower_char)
  show ?thesis
    by (simp add: py_strip_def py_lower_def dropWhile_map rev_map c)
qed

lemma py_lower_Nil_iff: "py_lower s = [] \<longleftrightarrow> s = []"
  by (simp add: py_lower_def)

lemma strip_Outros: "py_strip ''Outros'' = ''Outros''"
  by code_simp
lemma strip_pix: "py_lower (py_strip ''pix'') = ''pix''"
  by code_simp

lemma py_strip_parts:
  "\<exists>pre post. s = pre @ py_strip s @ post \<and> list_all py_isspace pre \<and> list_all py_isspace post"
proof -
  define v where "v = dropWhile py_isspace s"
  have 1: "s = takeWhile py_isspace s @ v" by (simp add: v_def)
  have "rev (takeWhile py_isspace (rev v) @ dropWhile py_isspace (rev v)) = rev (rev v)"
    by (simp only: takeWhile_dropWhile_id)
  then have "rev (dropWhile py_isspace (rev v)) @ rev (takeWhile py_isspace (rev v)) = v"
    by (simp only: rev_append rev_rev_ident)
  then have 2: "v = py_strip s @ rev (takeWhile py_isspace (rev v))"
    by (simp add: py_strip_def v_def)
  have 3: "list_all py_isspace (takeWhile py_isspace s)"
    by (simp add: list_all_iff) (meson set_takeWhileD)
  have 4: "list_all py_isspace (rev (takeWhile py_isspace (rev v)))"
    by (simp add: list_all_iff) (meson set_takeWhileD)
  from 1 2 have "s = takeWhile py_isspace s @ py_strip s @ rev (takeWhile py_isspace (rev v))"
    by simp
  with 3 4 show ?thesis by blast
qed

lemma py_strip_Nil_iff: "(py_strip s = []) = list_all py_isspace s"
proof
  assume e: "py_strip s = []"
  from py_strip_parts[of s] obtain pre post where
    "s = pre @ py_strip s @ post" "list_all py_isspace pre" "list_all py_isspace post" by blast
  with e have "s = pre @ post" by simp
  with \<open>list_all py_isspace pre\<close> \<open>list_all py_isspace post\<close> show "list_all py_isspace s"
    by simp
next
  assume "list_all py_isspace s"
  then have "dropWhile py_isspace s = []" by (simp add: list_all_iff dropWhile_eq_Nil_conv)
  then show "py_strip s = []" by (simp add: py_strip_def del: dropWhile_eq_Nil_conv)
qed

lemma py_strip_ends:
  "py_strip s \<noteq> [] \<Longrightarrow> \<not> py_isspace (hd (py_strip s)) \<and> \<not> py_isspace (last (py_strip s))"
  using py_strip_stripped[of s] by (simp add: stripped_def)

text \<open>
  Claim C8. The validators have no error path: the source raises nowhere in them, and
  the model returns a value for every kind and every input. The value of
  \<open>validate_category\<close> is the input without the whitespace at its two ends (the input
  is whitespace, the value, whitespace; the value neither starts nor ends with
  whitespace), with its case kept, or \<open>Outros\<close> when the input is whitespace only. The
  value of \<open>validate_payment_method\<close> is the input trimmed in the same way and
  lower-cased, or \<open>pix\<close> when the input is whitespace only. The vocabulary plays no part
  in the value: \<open>Viagem\<close> and \<open>cheque\<close> are outside it, are returned, and only raise the
  advisory. In particular \<open>PIX\<close> gives \<open>pix\<close> and the empty text gives \<open>pix\<close>.
\<close>

theorem validators_total:
  "(list_all py_isspace c \<longrightarrow> validate_category k c = ''Outros'')
   \<and> (\<not> list_all py_isspace c \<longrightarrow>
        (\<exists>pre post. c = pre @ validate_category k c @ post
           \<and> list_all py_isspace pre \<and> list_all py_isspace post
           \<and> \<not> py_isspace (hd (validate_category k c))
           \<and> \<not> py_isspace (last (validate_category k c))))
   \<and> (list_all py_isspace m \<longrightarrow> validate_payment_method m = ''pix'')
   \<and> (\<not> list_all py_isspace m \<longrightarrow>
        (\<exists>pre core post. m = pre @ core @ post
           \<and> list_all py_isspace pre \<and> list_all py_isspace post
           \<and> core \<noteq> [] \<and> \<not> py_isspace (hd core) \<and> \<not> py_isspace (last core)
           \<and> validate_payment_method m = map lower_char core))
   \<and> validate_payment_method ''PIX'' = ''pix''
   \<and> validate_payment_method [] = ''pix''
   \<and> validate_category Expense ''  Viagem '' = ''Viagem''
   \<and> validate_category_warns Expense ''  Viagem ''
   \<and> validate_payment_method '' Cheque  '' = ''cheque''
   \<and> validate_payment_method_warns '' Cheque  ''"
proof -
  have 1: "list_all py_isspace c \<longrightarrow> validate_category k c = ''Outros''"
    by (simp add: validate_category_def py_or_def py_strip_Nil_iff)
  have 2: "\<not> list_all py_isspace c \<longrightarrow>
        (\<exists>pre post. c = pre @ validate_category k c @ post
           \<and> list_all py_isspace pre \<and> list_all py_isspace post
           \<and> \<not> py_isspace (hd (validate_category k c))
           \<and> \<not> py_isspace (last (validate_category k c)))"
  proof
    assume "\<not> list_all py_isspace c"
    then have ne: "py_strip c \<noteq> []" by (simp add: py_strip_Nil_iff)
    then have v: "validate_category k c = py_strip c" by (simp add: validate_category_def py_or_def)
    from py_strip_parts[of c] py_strip_ends[OF ne] show
      "\<exists>pre post. c = pre @ validate_category k c @ post
           \<and> list_all py_isspace pre \<and> list_all py_isspace post
           \<and> \<not> py_isspace (hd (validate_category k c))
           \<and> \<not> py_isspace (last (validate_category k c))"
      unfolding v by blast
  qed
  have 3: "list_all py_isspace m \<longrightarrow> validate_payment_method m = ''pix''"
    by (simp add: validate_payment_method_def py_or_def py_strip_Nil_iff py_lower_def)
  have 4: "\<not> list_all py_isspace m \<longrightarrow>
        (\<exists>pre core post. m = pre @ core @ post
           \<and> list_all py_isspace pre \<and> list_all py_isspace post
           \<and> core \<noteq> [] \<and> \<not> py_isspace (hd core) \<and> \<not> py_isspace (last core)
           \<and> validate_payment_method m = map lower_char core)"
  proof
    assume "\<not> list_all py_isspace m"
    then have ne: "py_strip m \<noteq> []" by (simp add: py_strip_Nil_iff)
    then have v: "validate_payment_method m = map lower_char (py_strip m)"
      by (simp add: validate_payment_method_def py_or_def py_lower_def)
    from py_strip_parts[of m] obtain pre post where
      "m = pre @ py_strip m @ post" "list_all py_isspace pre" "list_all py_isspace post" by blast
    with ne py_strip_ends[OF ne] v show
      "\<exists>pre core post. m = pre @ core @ post
           \<and> list_all py_isspace pre \<and> list_all py_isspace post
           \<and> core \<noteq> [] \<and> \<not> py_isspace (hd core) \<and> \<not> py_isspace (last core)
           \<and> validate_payment_method m = map lower_char core"
      by blast
  qed
  have 5: "validate_payment_method ''PIX'' = ''pix''" by code_simp
  have 6: "validate_payment_method [] = ''pix''" by code_simp
  have 7: "validate_category Expense ''  Viagem '' = ''Viagem''" by code_simp
  have 8: "validate_category_warns Expense ''  Viagem ''" by code_simp
  have 9: "validate_payment_method '' Cheque  '' = ''cheque''" by code_simp
  have 10: "validate_payment_method_warns '' Cheque  ''" by code_simp
  from 1 2 3 4 5 6 7 8 9 10 show ?thesis by blast
qed

theorem validators_total_witness:
  "list_all py_isspace ''  '' \<and> validate_category Income ''  '' = ''Outros''
   \<and> \<not> list_all py_isspace ''  Viagem ''
   \<and> (\<exists>pre post. ''  Viagem '' = pre @ validate_category Expense ''  Viagem '' @ post
          \<and> list_all py_isspace pre \<and> list_all py_isspace post
          \<and> \<not> py_isspace (hd (validate_category Expense ''  Viagem ''))
          \<and> \<not> py_isspace (last (validate_category Expense ''  Viagem '')))
   \<and> list_all py_isspace [CHR 0x09, CHR '' ''] \<and> validate_payment_method [CHR 0x09, CHR '' ''] = ''pix''
   \<and> \<not> list_all py_isspace '' Cheque  ''
   \<and> (\<exists>pre core post. '' Cheque  '' = pre @ core @ post
          \<and> list_all py_isspace pre \<and> list_all py_isspace post
          \<and> core \<noteq> [] \<and> \<not> py_isspace (hd core) \<and> \<not> py_isspace (last core)
          \<and> validate_payment_method '' Cheque  '' = map lower_char core)"
proof -
  have 1: "list_all py_isspace ''  ''" by code_simp
  have 2: "\<not> list_all py_isspace ''  Viagem ''" by code_simp
  have 3: "list_all py_isspace [CHR 0x09, CHR '' '']" by code_simp
  have 4: "\<not> list_all py_isspace '' Cheque  ''" by code_simp
  note a = validators_total[where c = "''  ''" and k = Income and m = "[CHR 0x09, CHR '' '']"]
  note b = validators_total[where c = "''  Viagem ''" and k = Expense and m = "'' Cheque  ''"]
  from a 1 have 5: "validate_category Income ''  '' = ''Outros''" by blast
  from a 3 have 6: "validate_payment_method [CHR 0x09, CHR '' ''] = ''pix''" by blast
  from b 2 have 7: "\<exists>pre post. ''  Viagem '' = pre @ validate_category Expense ''  Viagem '' @ post
          \<and> list_all py_isspace pre \<and> list_all py_isspace post
          \<and> \<not> py_isspace (hd (validate_category Expense ''  Viagem ''))
          \<and> \<not> py_isspace (last (validate_category Expense ''  Viagem ''))" by blast
  from b 4 have 8: "\<exists>pre core post. '' Cheque  '' = pre @ core @ post
          \<and> list_all py_isspace pre \<and> list_all py_isspace post
          \<and> core \<noteq> [] \<and> \<not> py_isspace (hd core) \<and> \<not> py_isspace (last core)
          \<and> validate_payment_method '' Cheque  '' = map lower_char core" by blast
  from 1 5 2 7 3 6 4 8 show ?thesis by blast
qed

text \<open>
  Claim C10. Both validators are idempotent and never return the empty text.
\<close>

theorem validators_idempotent:
  "validate_category k (validate_category k c) = validate_category k c
   \<and> validate_payment_method (validate_payment_method m) = validate_payment_method m
   \<and> validate_category k c \<noteq> []
   \<and> validate_payment_method m \<noteq> []"
proof -
  have 1: "validate_category k (validate_category k c) = validate_category k c"
    by (simp add: validate_category_def py_or_def py_strip_idem strip_Outros)
  have 2: "validate_payment_method (validate_payment_method m) = validate_payment_method m"
    by (simp add: validate_payment_method_def py_or_def py_strip_idem py_strip_lower py_lower_idem
        py_lower_Nil_iff strip_pix)
  have 3: "validate_category k c \<noteq> []"
    by (simp add: validate_category_def py_or_def)
  have 4: "validate_payment_method m \<noteq> []"
    by (simp add: validate_payment_method_def py_or_def Let_def)
  from 1 2 3 4 show ?thesis by blast
qed

section \<open>Decimal digits and timestamps\<close>

lemma char_eq_code: "(a = b) = (code a = code b)"
  using code_inj by auto

lemma codes [simp]:
  "code CHR ''0'' = 48" "code CHR ''1'' = 49" "code CHR ''2'' = 50" "code CHR ''3'' = 51"
  "code CHR ''9'' = 57" "code CHR '' '' = 32" "code CHR ''-'' = 45" "code CHR ''/'' = 47"
  by (simp_all add: code_def)

lemma is_digit_digit_char: "0 \<le> k \<Longrightarrow> k \<le> 9 \<Longrightarrow> is_digit (digit_char k)"
  by (simp add: is_digit_def digit_char_def code_char_of)

lemma dec_1: "n < 10 \<Longrightarrow> dec n = [digit_char n]"
  by (subst dec.simps) simp

lemma dec_2: "10 \<le> n \<Longrightarrow> n < 100 \<Longrightarrow> dec n = [digit_char (n div 10), digit_char (n mod 10)]"
  by (subst dec.simps) (simp add: dec_1)

lemma dec_3: "100 \<le> n \<Longrightarrow> n < 1000 \<Longrightarrow>
    dec n = [digit_char (n div 10 div 10), digit_char (n div 10 mod 10), digit_char (n mod 10)]"
  by (subst dec.simps) (simp add: dec_2)

lemma dec_4: "1000 \<le> n \<Longrightarrow> n < 10000 \<Longrightarrow>
    dec n = [digit_char (n div 10 div 10 div 10), digit_char (n div 10 div 10 mod 10),
             digit_char (n div 10 mod 10), digit_char (n mod 10)]"
  by (subst dec.simps) (simp add: dec_3)

lemma digit_char_0: "digit_char 0 = CHR ''0''"
  by (rule code_inj) (simp add: digit_char_def code_char_of)

lemma div10_bounds:
  fixes n :: int
  assumes "0 \<le> n" "n < 10 * k"
  shows "0 \<le> n div 10" "n div 10 < k" "0 \<le> n mod 10" "n mod 10 \<le> 9"
proof -
  show "0 \<le> n div 10" using assms(1) by (simp add: pos_imp_zdiv_nonneg_iff)
  show "n div 10 < k" using assms(2) by (simp add: div_less_iff_less_mult mult.commute)
  show "0 \<le> n mod 10" by simp
  have "n mod 10 < 10" by simp
  then show "n mod 10 \<le> 9" by linarith
qed

lemma last_digit: "is_digit (digit_char (n mod 10))"
proof -
  have "0 \<le> n mod 10" by simp
  moreover have "n mod 10 < 10" by simp
  then have "n mod 10 \<le> 9" by linarith
  ultimately show ?thesis by (rule is_digit_digit_char)
qed

lemma first_digit: "0 \<le> n \<Longrightarrow> n < 10 \<Longrightarrow> is_digit (digit_char n)"
  by (rule is_digit_digit_char) simp_all

lemma zero_pad_2:
  assumes "0 \<le> n" "n < 100"
  shows "\<exists>a b. zero_pad 2 n = [a, b] \<and> is_digit a \<and> is_digit b"
proof (cases "n < 10")
  case True
  have z: "is_digit CHR ''0''" by (simp add: is_digit_def)
  have p: "dec n = [digit_char n]" by (rule dec_1[OF True])
  have q: "is_digit (digit_char n)" by (rule first_digit[OF assms(1) True])
  show ?thesis unfolding zero_pad_def p by (simp add: numeral_2_eq_2 z q)
next
  case False
  then have lo: "10 \<le> n" by simp
  have p: "dec n = [digit_char (n div 10), digit_char (n mod 10)]" by (rule dec_2[OF lo assms(2)])
  from assms(2) have "n < 10 * 10" by simp
  from div10_bounds(1,2)[OF assms(1) this]
  have q: "is_digit (digit_char (n div 10))" by (rule first_digit)
  show ?thesis unfolding zero_pad_def p by (simp add: q last_digit)
qed

lemma zero_pad_4:
  assumes "0 \<le> n" "n < 10000"
  shows "\<exists>a b c d. zero_pad 4 n = [a, b, c, d] \<and> is_digit a \<and> is_digit b \<and> is_digit c \<and> is_digit d"
proof -
  have z: "is_digit CHR ''0''" by (simp add: is_digit_def)
  have r4: "replicate 3 x = [x, x, x]" "replicate 2 x = [x, x]" for x :: char
    by (simp_all add: numeral_3_eq_3 numeral_2_eq_2)
  consider (a) "n < 10" | (b) "10 \<le> n" "n < 100" | (c) "100 \<le> n" "n < 1000" | (d) "1000 \<le> n"
    by linarith
  then show ?thesis
  proof cases
    case a
    have p: "dec n = [digit_char n]" by (rule dec_1[OF a])
    have q: "is_digit (digit_char n)" by (rule first_digit[OF assms(1) a])
    show ?thesis unfolding zero_pad_def p by (simp add: r4 z q)
  next
    case b
    have p: "dec n = [digit_char (n div 10), digit_char (n mod 10)]" by (rule dec_2[OF b])
    from b have "n < 10 * 10" by simp
    from div10_bounds(1,2)[OF assms(1) this]
    have q: "is_digit (digit_char (n div 10))" by (rule first_digit)
    show ?thesis unfolding zero_pad_def p by (simp add: r4 z q last_digit)
  next
    case c
    have p: "dec n = [digit_char (n div 10 div 10), digit_char (n div 10 mod 10), digit_char (n mod 10)]"
      by (rule dec_3[OF c])
    from c have "n < 10 * 100" by simp
    note b1 = div10_bounds(1,2)[OF assms(1) this]
    from b1(2) have "n div 10 < 10 * 10" by simp
    from div10_bounds(1,2)[OF b1(1) this]
    have q: "is_digit (digit_char (n div 10 div 10))" by (rule first_digit)
    show ?thesis unfolding zero_pad_def p by (simp add: z q last_digit)
  next
    case d
    have p: "dec n = [digit_char (n div 10 div 10 div 10), digit_char (n div 10 div 10 mod 10),
             digit_char (n div 10 mod 10), digit_char (n mod 10)]"
      by (rule dec_4[OF d assms(2)])
    from assms(2) have "n < 10 * 1000" by simp
    note b1 = div10_bounds(1,2)[OF assms(1) this]
    from b1(2) have "n div 10 < 10 * 100" by simp
    note b2 = div10_bounds(1,2)[OF b1(1) this]
    from b2(2) have "n div 10 div 10 < 10 * 10" by simp
    from div10_bounds(1,2)[OF b2(1) this]
    have q: "is_digit (digit_char (n div 10 div 10 div 10))" by (rule first_digit)
    show ?thesis unfolding zero_pad_def p by (simp add: q last_digit)
  qed
qed

lemma days_in_month_le: "days_in_month y m \<le> 31"
  by (simp add: days_in_month_def)

lemma isoformat_shape:
  assumes "valid_date y m d"
  shows "shape_ymd (isoformat y m d)"
proof -
  from assms have y: "0 \<le> y" "y < 10000" and m: "0 \<le> m" "m < 100" and d: "0 \<le> d" "d < 100"
    using days_in_month_le[of y m] by (simp_all add: valid_date_def)
  from zero_pad_4[OF y] obtain a b c e where
    Y: "zero_pad 4 y = [a, b, c, e]" "is_digit a" "is_digit b" "is_digit c" "is_digit e" by blast
  from zero_pad_2[OF m] obtain f g where M: "zero_pad 2 m = [f, g]" "is_digit f" "is_digit g" by blast
  from zero_pad_2[OF d] obtain h i where D: "zero_pad 2 d = [h, i]" "is_digit h" "is_digit i" by blast
  show ?thesis by (simp add: isoformat_def Y M D shape_ymd_def)
qed

lemma digits_val_snoc: "digits_val (xs @ [c]) = 10 * digits_val xs + digit_val c"
  by (simp add: digits_val_def)

lemma digit_val_digit_char: "0 \<le> k \<Longrightarrow> k \<le> 9 \<Longrightarrow> digit_val (digit_char k) = k"
  by (simp add: digit_val_def digit_char_def code_char_of)

lemma digits_val_dec: "0 \<le> n \<Longrightarrow> digits_val (dec n) = n"
proof (induction n rule: dec.induct)
  case (1 n)
  show ?case
  proof (cases "n < 10")
    case True
    have "dec n = [digit_char n]" by (rule dec_1[OF True])
    moreover have "digit_val (digit_char n) = n"
      using "1.prems" True by (intro digit_val_digit_char) simp_all
    ultimately show ?thesis by (simp add: digits_val_def)
  next
    case False
    have d: "dec n = dec (n div 10) @ [digit_char (n mod 10)]"
      using False by (subst dec.simps) simp
    have nn: "0 \<le> n div 10" using "1.prems" by (simp add: pos_imp_zdiv_nonneg_iff)
    have ih: "digits_val (dec (n div 10)) = n div 10" by (rule "1.IH"[OF False nn])
    have m0: "0 \<le> n mod 10" by simp
    have "n mod 10 < 10" by simp
    then have m9: "n mod 10 \<le> 9" by linarith
    have l: "digit_val (digit_char (n mod 10)) = n mod 10" by (rule digit_val_digit_char[OF m0 m9])
    have "10 * (n div 10) + n mod 10 = n" by (rule mult_div_mod_eq)
    then show ?thesis unfolding d digits_val_snoc ih l .
  qed
qed

lemma digits_val_zero: "digits_val (CHR ''0'' # xs) = digits_val xs"
  by (simp add: digits_val_def digit_val_def)

lemma digits_val_zeros: "digits_val (replicate k CHR ''0'' @ xs) = digits_val xs"
  by (induction k) (simp_all add: digits_val_zero)

lemma digits_val_zero_pad: "0 \<le> n \<Longrightarrow> digits_val (zero_pad w n) = n"
  by (simp add: zero_pad_def digits_val_zeros digits_val_dec)

lemma zero_pad_2_val:
  assumes "0 \<le> n" "n < 100"
  shows "\<exists>a b. zero_pad 2 n = [a, b] \<and> is_digit a \<and> is_digit b \<and> digits_val [a, b] = n"
proof -
  from zero_pad_2[OF assms] obtain a b where h: "zero_pad 2 n = [a, b]" "is_digit a" "is_digit b"
    by blast
  from digits_val_zero_pad[OF assms(1), of 2] h(1) have "digits_val [a, b] = n" by simp
  with h show ?thesis by blast
qed

lemma zero_pad_4_val:
  assumes "0 \<le> n" "n < 10000"
  shows "\<exists>a b c d. zero_pad 4 n = [a, b, c, d] \<and> is_digit a \<and> is_digit b \<and> is_digit c \<and> is_digit d
           \<and> digits_val [a, b, c, d] = n"
proof -
  from zero_pad_4[OF assms] obtain a b c d where
    h: "zero_pad 4 n = [a, b, c, d]" "is_digit a" "is_digit b" "is_digit c" "is_digit d"
    by blast
  from digits_val_zero_pad[OF assms(1), of 4] h(1) have "digits_val [a, b, c, d] = n" by simp
  with h show ?thesis by blast
qed

lemma stamp_read:
  assumes "valid_clock now"
  shows "read_stamp (isoformat_seconds now @ ''Z'') =
           Some (dt_year now, dt_month now, dt_day now, dt_hour now, dt_minute now, dt_second now)"
proof -
  from assms have y: "0 \<le> dt_year now" "dt_year now < 10000"
    and m: "0 \<le> dt_month now" "dt_month now < 100"
    and d: "0 \<le> dt_day now" "dt_day now < 100"
    and h: "0 \<le> dt_hour now" "dt_hour now < 100"
    and mi: "0 \<le> dt_minute now" "dt_minute now < 100"
    and s: "0 \<le> dt_second now" "dt_second now < 100"
    using days_in_month_le[of "dt_year now" "dt_month now"]
    by (simp_all add: valid_clock_def valid_date_def)
  from zero_pad_4_val[OF y] obtain y1 y2 y3 y4 where
    Y: "zero_pad 4 (dt_year now) = [y1, y2, y3, y4]" "is_digit y1" "is_digit y2" "is_digit y3"
       "is_digit y4" "digits_val [y1, y2, y3, y4] = dt_year now" by blast
  from zero_pad_2_val[OF m] obtain m1 m2 where
    M: "zero_pad 2 (dt_month now) = [m1, m2]" "is_digit m1" "is_digit m2"
       "digits_val [m1, m2] = dt_month now" by blast
  from zero_pad_2_val[OF d] obtain d1 d2 where
    D: "zero_pad 2 (dt_day now) = [d1, d2]" "is_digit d1" "is_digit d2"
       "digits_val [d1, d2] = dt_day now" by blast
  from zero_pad_2_val[OF h] obtain h1 h2 where
    H: "zero_pad 2 (dt_hour now) = [h1, h2]" "is_digit h1" "is_digit h2"
       "digits_val [h1, h2] = dt_hour now" by blast
  from zero_pad_2_val[OF mi] obtain n1 n2 where
    N: "zero_pad 2 (dt_minute now) = [n1, n2]" "is_digit n1" "is_digit n2"
       "digits_val [n1, n2] = dt_minute now" by blast
  from zero_pad_2_val[OF s] obtain s1 s2 where
    S: "zero_pad 2 (dt_second now) = [s1, s2]" "is_digit s1" "is_digit s2"
       "digits_val [s1, s2] = dt_second now" by blast
  have e: "isoformat_seconds now @ ''Z'' =
      [y1, y2, y3, y4, CHR ''-'', m1, m2, CHR ''-'', d1, d2, CHR ''T'', h1, h2, CHR '':'',
       n1, n2, CHR '':'', s1, s2, CHR ''Z'']"
    by (simp add: isoformat_seconds_def isoformat_def Y(1) M(1) D(1) H(1) N(1) S(1))
  show ?thesis
    unfolding e read_stamp_def
    by (simp add: Y M D H N S)
qed

section \<open>Persistence\<close>

lemma foldr_max_ge_init: "s \<le> foldr max xs (s::int)"
  by (induction xs) auto

lemma foldr_max_ge_elem: "x \<in> set xs \<Longrightarrow> x \<le> foldr max xs (s::int)"
  by (induction xs) auto

lemma foldr_max_absorb: "(\<And>x. x \<in> set xs \<Longrightarrow> x \<le> s) \<Longrightarrow> foldr max xs (s::int) = s"
  by (induction xs) auto

lemma next_rowid_fresh: "next_rowid db \<notin> col_id ` set (table_rows db)"
proof
  assume "next_rowid db \<in> col_id ` set (table_rows db)"
  then have "next_rowid db \<in> set (map col_id (table_rows db))" by simp
  from foldr_max_ge_elem[OF this, of "sequence db"] show False by (simp add: next_rowid_def)
qed

lemma next_rowid_gt_sequence: "sequence db < next_rowid db"
  using foldr_max_ge_init[of "sequence db" "map col_id (table_rows db)"] by (simp add: next_rowid_def)

lemma save_duplicate:
  "is_duplicate db tx = Inr True \<Longrightarrow> save_transaction db now tx False = (Inl DuplicateTransaction, db)"
  by (simp add: save_transaction_def)

lemma save_inserts:
  assumes "al \<or> is_duplicate db tx = Inr False"
  shows "save_transaction db now tx al = insert_row db tx (isoformat_seconds now @ ''Z'')"
  using assms by (auto simp: save_transaction_def)

lemma insert_failure_keeps: "fst (insert_row db tx ts) = Inl e \<Longrightarrow> snd (insert_row db tx ts) = db"
  by (simp add: insert_row_def split: if_splits)

lemma save_failure_keeps:
  "fst (save_transaction db now tx al) = Inl e \<Longrightarrow> snd (save_transaction db now tx al) = db"
proof (cases "if al then Inr False else is_duplicate db tx")
  case (Inl x)
  then show ?thesis by (simp add: save_transaction_def)
next
  case (Inr b)
  assume f: "fst (save_transaction db now tx al) = Inl e"
  show ?thesis
  proof (cases b)
    case True
    with Inr show ?thesis by (simp add: save_transaction_def)
  next
    case False
    with Inr have eq: "save_transaction db now tx al = insert_row db tx (isoformat_seconds now @ ''Z'')"
      by (simp add: save_transaction_def)
    with f show ?thesis by (simp add: insert_failure_keeps)
  qed
qed

lemma insert_success:
  "insert_row db tx ts = (Inr i, db') \<Longrightarrow>
     i = next_rowid db \<and> 0 < amount_cents tx \<and> fits_int64 (amount_cents tx) \<and> \<not> ids_exhausted db"
  by (simp add: insert_row_def split: if_splits)

lemma insert_accepted:
  assumes "0 < amount_cents tx" "fits_int64 (amount_cents tx)" "\<not> ids_exhausted db"
  shows "insert_row db tx ts =
          (Inr (next_rowid db),
           \<lparr>table_rows = table_rows db @
              [\<lparr>col_id = next_rowid db, col_type = kind tx, col_date = date_iso tx,
                col_amount_cents = amount_cents tx, col_category = category tx,
                col_description = Some (description tx), col_account = Some (account tx),
                col_payment_method = Some (payment_method tx), col_tags = tags tx,
                col_created_at = ts, col_updated_at = ts\<rparr>],
             sequence = next_rowid db\<rparr>)"
  using assms by (simp add: insert_row_def)

lemma save_success:
  assumes "save_transaction db now tx al = (Inr i, db')"
  shows "insert_row db tx (isoformat_seconds now @ ''Z'') = (Inr i, db')"
proof (cases "if al then Inr False else is_duplicate db tx")
  case (Inl x)
  with assms show ?thesis by (simp add: save_transaction_def)
next
  case (Inr b)
  show ?thesis
  proof (cases b)
    case True
    with Inr assms show ?thesis by (simp add: save_transaction_def)
  next
    case False
    with Inr assms show ?thesis by (simp add: save_transaction_def)
  qed
qed

lemma inserted_rows:
  assumes "insert_row db tx ts = (Inr i, db')"
  shows "table_rows db' = table_rows db @
            [\<lparr>col_id = i, col_type = kind tx, col_date = date_iso tx,
              col_amount_cents = amount_cents tx, col_category = category tx,
              col_description = Some (description tx), col_account = Some (account tx),
              col_payment_method = Some (payment_method tx), col_tags = tags tx,
              col_created_at = ts, col_updated_at = ts\<rparr>]"
proof -
  from insert_success[OF assms] have a: "0 < amount_cents tx" "fits_int64 (amount_cents tx)"
    "\<not> ids_exhausted db" and i: "i = next_rowid db" by simp_all
  from assms show ?thesis unfolding insert_accepted[OF a] i by auto
qed

lemma inserted_sequence:
  assumes "insert_row db tx ts = (Inr i, db')"
  shows "sequence db' = i"
proof -
  from insert_success[OF assms] have a: "0 < amount_cents tx" "fits_int64 (amount_cents tx)"
    "\<not> ids_exhausted db" and i: "i = next_rowid db" by simp_all
  from assms show ?thesis unfolding insert_accepted[OF a] i by auto
qed

lemma inserted_is_duplicate:
  assumes "insert_row db tx ts = (Inr i, db')"
  shows "is_duplicate db' tx = Inr True"
proof -
  from insert_success[OF assms] have f: "fits_int64 (amount_cents tx)" by simp
  show ?thesis using f
    by (simp add: is_duplicate_def inserted_rows[OF assms] matches_def ifnull_def py_or_def)
qed

lemma inserted_next_rowid:
  assumes "insert_row db tx ts = (Inr i, db')"
  shows "next_rowid db' = i + 1"
proof -
  from insert_success[OF assms] have i: "i = next_rowid db" by simp
  have le: "x \<le> i" if "x \<in> set (map col_id (table_rows db))" for x
    using foldr_max_ge_elem[OF that, of "sequence db"] by (simp add: i next_rowid_def)
  have "foldr max (map col_id (table_rows db)) i = i"
    by (rule foldr_max_absorb) (rule le)
  then show ?thesis
    by (simp add: next_rowid_def inserted_rows[OF assms] inserted_sequence[OF assms])
qed

lemma add_transaction_cases:
  "add_transaction k db now d a c ds ac pm tg al =
     (case normalize_date_to_iso d of
        Inl e \<Rightarrow> (Inl e, db)
      | Inr di \<Rightarrow>
          (case parse_amount_to_cents a of
             Inl e \<Rightarrow> (Inl e, db)
           | Inr cents \<Rightarrow>
               save_transaction db now
                 \<lparr>kind = k, date_iso = di, amount_cents = cents, category = validate_category k c,
                  description = py_strip ds, account = py_or (py_strip ac) ''principal'',
                  payment_method = validate_payment_method pm, tags = tg\<rparr> al))"
  by (simp add: add_transaction_def Let_def split: sum.splits)

lemma add_transaction_failure_keeps:
  assumes "fst (add_transaction k db now d a c ds ac pm tg al) = Inl e"
  shows "snd (add_transaction k db now d a c ds ac pm tg al) = db"
proof (cases "normalize_date_to_iso d")
  case (Inl x) then show ?thesis by (simp add: add_transaction_cases)
next
  case di: (Inr di)
  show ?thesis
  proof (cases "parse_amount_to_cents a")
    case (Inl x) with di show ?thesis by (simp add: add_transaction_cases)
  next
    case (Inr cents)
    with di assms show ?thesis by (simp add: add_transaction_cases save_failure_keeps)
  qed
qed

lemma add_twice:
  assumes "add_transaction k db now d a c ds ac pm tg al = (Inr i, db')"
  shows "add_transaction k db' now' d a c ds ac pm tg False = (Inl DuplicateTransaction, db')"
    and "i < 2 ^ 63 - 1 \<Longrightarrow>
         \<exists>j db''. add_transaction k db' now' d a c ds ac pm tg True = (Inr j, db'') \<and> j \<noteq> i"
proof -
  from assms obtain di cents where
    nd: "normalize_date_to_iso d = Inr di" and pa: "parse_amount_to_cents a = Inr cents"
    by (auto simp: add_transaction_cases split: sum.splits)
  define tx where "tx = \<lparr>kind = k, date_iso = di, amount_cents = cents, category = validate_category k c,
                  description = py_strip ds, account = py_or (py_strip ac) ''principal'',
                  payment_method = validate_payment_method pm, tags = tg\<rparr>"
  from assms nd pa have s1: "save_transaction db now tx al = (Inr i, db')"
    by (simp add: add_transaction_cases tx_def)
  have ins: "insert_row db tx (isoformat_seconds now @ ''Z'') = (Inr i, db')"
    by (rule save_success[OF s1])
  from insert_success[OF ins] have pos: "0 < amount_cents tx" and fit: "fits_int64 (amount_cents tx)"
    by simp_all
  have dup: "is_duplicate db' tx = Inr True" by (rule inserted_is_duplicate[OF ins])
  have nx: "next_rowid db' = i + 1" by (rule inserted_next_rowid[OF ins])
  show "add_transaction k db' now' d a c ds ac pm tg False = (Inl DuplicateTransaction, db')"
    using nd pa save_duplicate[OF dup] by (simp add: add_transaction_cases tx_def)
  assume small: "i < 2 ^ 63 - 1"
  then have room: "\<not> ids_exhausted db'" by (simp add: ids_exhausted_def nx)
  have a2: "add_transaction k db' now' d a c ds ac pm tg True = save_transaction db' now' tx True"
    using nd pa by (simp add: add_transaction_cases tx_def)
  have s2: "save_transaction db' now' tx True = insert_row db' tx (isoformat_seconds now' @ ''Z'')"
    by (rule save_inserts) simp
  note acc = insert_accepted[OF pos fit room, of "isoformat_seconds now' @ ''Z''"]
  show "\<exists>j db''. add_transaction k db' now' d a c ds ac pm tg True = (Inr j, db'') \<and> j \<noteq> i"
    unfolding a2 s2 acc nx by (intro exI[of _ "i + 1"]) simp
qed

text \<open>
  Claim C6. For a transaction whose amount fits the 64-bit integer of the store,
  \<open>is_duplicate\<close> returns true exactly when some stored row agrees with it on kind, date,
  amount, category and description, a \<open>NULL\<close> description counting as the empty text;
  account, payment method and tags do not change the answer.
\<close>

theorem is_duplicate_spec:
  assumes "fits_int64 (amount_cents tx)"
  shows "is_duplicate db tx =
           Inr (\<exists>r\<in>set (table_rows db).
                  col_type r = kind tx \<and> col_date r = date_iso tx
                  \<and> col_amount_cents r = amount_cents tx \<and> col_category r = category tx
                  \<and> (case col_description r of None \<Rightarrow> [] | Some d \<Rightarrow> d) = description tx)
         \<and> is_duplicate db (tx\<lparr>account := a, payment_method := p, tags := t\<rparr>) = is_duplicate db tx"
proof -
  have m: "matches (tx\<lparr>account := a, payment_method := p, tags := t\<rparr>) = matches tx"
    by (rule ext) (simp add: matches_def)
  have "(filter (matches tx) (table_rows db) \<noteq> []) = (\<exists>r\<in>set (table_rows db). matches tx r)"
    by (simp add: filter_empty_conv)
  then show ?thesis using assms
    by (simp add: is_duplicate_def m) (simp add: matches_def ifnull_def py_or_def)
qed

theorem is_duplicate_spec_witness:
  "fits_int64 (amount_cents tx0) \<and> is_duplicate db0 tx0 = Inr True
   \<and> is_duplicate db0 (tx0\<lparr>account := ''x'', payment_method := ''y'', tags := None\<rparr>) = Inr True"
proof -
  have f: "fits_int64 (amount_cents tx0)" by (simp add: fits_int64_def tx0_def)
  have e: "(\<exists>r\<in>set (table_rows db0).
                  col_type r = kind tx0 \<and> col_date r = date_iso tx0
                  \<and> col_amount_cents r = amount_cents tx0 \<and> col_category r = category tx0
                  \<and> (case col_description r of None \<Rightarrow> [] | Some d \<Rightarrow> d) = description tx0)"
    by (simp add: db0_def tx0_def)
  from is_duplicate_spec[OF f, where db = db0 and a = "''x''" and p = "''y''" and t = None] e f show ?thesis by simp
qed

text \<open>
  Claim C3, amended. Without \<open>allow_duplicate\<close>, \<open>save_transaction\<close> on a duplicate fails
  with \<open>DuplicateTransaction\<close> and leaves the database as it was. Otherwise, when the
  transaction has a positive amount that fits a 64-bit integer and an id is left, it
  appends one row with the fields of the transaction, stamps \<open>created_at\<close> and
  \<open>updated_at\<close> with one text of the shape \<open>YYYY-MM-DDTHH:MM:SSZ\<close> that reads back as the
  clock to the second, and returns the new id, which no stored row has. After a
  successful \<open>add_expense\<close>, the same call without \<open>allow_duplicate\<close> fails with
  \<open>DuplicateTransaction\<close>; with \<open>allow_duplicate\<close> it succeeds with another id, unless the
  first id was the last one, \<open>2 ^ 63 - 1\<close>.
\<close>

theorem save_transaction_spec:
  "(is_duplicate db tx = Inr True \<longrightarrow>
      save_transaction db now tx False = (Inl DuplicateTransaction, db))
   \<and> ((al \<or> is_duplicate db tx = Inr False) \<and> 0 < amount_cents tx \<and> fits_int64 (amount_cents tx)
        \<and> \<not> ids_exhausted db \<and> valid_clock now \<longrightarrow>
        (\<exists>stamp.
           save_transaction db now tx al =
             (Inr (next_rowid db),
              \<lparr>table_rows = table_rows db @
                 [\<lparr>col_id = next_rowid db, col_type = kind tx, col_date = date_iso tx,
                   col_amount_cents = amount_cents tx, col_category = category tx,
                   col_description = Some (description tx), col_account = Some (account tx),
                   col_payment_method = Some (payment_method tx), col_tags = tags tx,
                   col_created_at = stamp, col_updated_at = stamp\<rparr>],
                sequence = next_rowid db\<rparr>)
           \<and> read_stamp stamp =
               Some (dt_year now, dt_month now, dt_day now, dt_hour now, dt_minute now, dt_second now))
        \<and> next_rowid db \<notin> col_id ` set (table_rows db))
   \<and> (add_expense db now d a c ds ac pm tg al' = (Inr i, db') \<longrightarrow>
        add_expense db' now' d a c ds ac pm tg False = (Inl DuplicateTransaction, db')
        \<and> (i < 2 ^ 63 - 1 \<longrightarrow>
             (\<exists>j db''. add_expense db' now' d a c ds ac pm tg True = (Inr j, db'') \<and> j \<noteq> i)))"
proof (intro conjI impI)
  assume "is_duplicate db tx = Inr True"
  then show "save_transaction db now tx False = (Inl DuplicateTransaction, db)"
    by (rule save_duplicate)
next
  assume h: "(al \<or> is_duplicate db tx = Inr False) \<and> 0 < amount_cents tx \<and> fits_int64 (amount_cents tx)
        \<and> \<not> ids_exhausted db \<and> valid_clock now"
  then have s: "save_transaction db now tx al = insert_row db tx (isoformat_seconds now @ ''Z'')"
    by (intro save_inserts) simp
  from h have a: "0 < amount_cents tx" "fits_int64 (amount_cents tx)" "\<not> ids_exhausted db"
    and v: "valid_clock now" by simp_all
  show "\<exists>stamp.
           save_transaction db now tx al =
             (Inr (next_rowid db),
              \<lparr>table_rows = table_rows db @
                 [\<lparr>col_id = next_rowid db, col_type = kind tx, col_date = date_iso tx,
                   col_amount_cents = amount_cents tx, col_category = category tx,
                   col_description = Some (description tx), col_account = Some (account tx),
                   col_payment_method = Some (payment_method tx), col_tags = tags tx,
                   col_created_at = stamp, col_updated_at = stamp\<rparr>],
                sequence = next_rowid db\<rparr>)
           \<and> read_stamp stamp =
               Some (dt_year now, dt_month now, dt_day now, dt_hour now, dt_minute now, dt_second now)"
    unfolding s insert_accepted[OF a]
    by (intro exI[of _ "isoformat_seconds now @ ''Z''"] conjI refl stamp_read[OF v])
next
  show "next_rowid db \<notin> col_id ` set (table_rows db)" by (rule next_rowid_fresh)
next
  assume "add_expense db now d a c ds ac pm tg al' = (Inr i, db')"
  then have "add_transaction Expense db now d a c ds ac pm tg al' = (Inr i, db')"
    by (simp add: add_expense_def)
  from add_twice(1)[OF this, of now']
  show "add_expense db' now' d a c ds ac pm tg False = (Inl DuplicateTransaction, db')"
    by (simp add: add_expense_def)
next
  assume "add_expense db now d a c ds ac pm tg al' = (Inr i, db')" and small: "i < 2 ^ 63 - 1"
  then have "add_transaction Expense db now d a c ds ac pm tg al' = (Inr i, db')"
    by (simp add: add_expense_def)
  from add_twice(2)[OF this small, of now']
  show "\<exists>j db''. add_expense db' now' d a c ds ac pm tg True = (Inr j, db'') \<and> j \<noteq> i"
    by (simp add: add_expense_def)
qed

theorem save_transaction_spec_witness:
  "is_duplicate db0 tx0 = Inr True
   \<and> save_transaction db0 now0 tx0 False = (Inl DuplicateTransaction, db0)
   \<and> 0 < amount_cents tx0 \<and> fits_int64 (amount_cents tx0) \<and> \<not> ids_exhausted db0 \<and> valid_clock now1
   \<and> fst (save_transaction db0 now1 tx0 True) = Inr 2
   \<and> map col_created_at (table_rows (snd (save_transaction db0 now1 tx0 True)))
        = [''2024-03-05T01:02:03Z'', ''2024-03-06T10:20:30Z'']
   \<and> read_stamp ''2024-03-06T10:20:30Z'' = Some (2024, 3, 6, 10, 20, 30)
   \<and> add_expense empty_db now0 ''05/03/2024'' ''12,50'' ''Lazer'' ''cinema'' [] ''PIX'' None False
       = (Inr 1, db1)
   \<and> add_expense db1 now1 ''05/03/2024'' ''12,50'' ''Lazer'' ''cinema'' [] ''PIX'' None False
       = (Inl DuplicateTransaction, db1)
   \<and> (\<exists>j db''. add_expense db1 now1 ''05/03/2024'' ''12,50'' ''Lazer'' ''cinema'' [] ''PIX'' None True
          = (Inr j, db'') \<and> j \<noteq> 1)"
proof -
  have d: "is_duplicate db0 tx0 = Inr True" by code_simp
  have p: "0 < amount_cents tx0 \<and> fits_int64 (amount_cents tx0)"
    by (simp add: tx0_def fits_int64_def)
  have n: "next_rowid db0 = 2" by (simp add: next_rowid_def db0_def)
  have r: "\<not> ids_exhausted db0" by (simp add: ids_exhausted_def n)
  have v: "valid_clock now1" by code_simp
  have c: "map col_created_at (table_rows (snd (save_transaction db0 now1 tx0 True)))
        = [''2024-03-05T01:02:03Z'', ''2024-03-06T10:20:30Z'']" by code_simp
  have a: "add_expense empty_db now0 ''05/03/2024'' ''12,50'' ''Lazer'' ''cinema'' [] ''PIX'' None False
       = (Inr 1, db1)" by code_simp
  note t = save_transaction_spec[where db = db0 and tx = tx0 and now = now1 and al = True]
  from save_transaction_spec[where db = db0 and tx = tx0 and now = now0] d
  have 1: "save_transaction db0 now0 tx0 False = (Inl DuplicateTransaction, db0)" by blast
  from t p r v obtain stamp where
    st: "save_transaction db0 now1 tx0 True =
             (Inr (next_rowid db0),
              \<lparr>table_rows = table_rows db0 @
                 [\<lparr>col_id = next_rowid db0, col_type = kind tx0, col_date = date_iso tx0,
                   col_amount_cents = amount_cents tx0, col_category = category tx0,
                   col_description = Some (description tx0), col_account = Some (account tx0),
                   col_payment_method = Some (payment_method tx0), col_tags = tags tx0,
                   col_created_at = stamp, col_updated_at = stamp\<rparr>],
                sequence = next_rowid db0\<rparr>)"
    and rs: "read_stamp stamp = Some (dt_year now1, dt_month now1, dt_day now1, dt_hour now1,
                                     dt_minute now1, dt_second now1)"
    by blast
  from st n have 2: "fst (save_transaction db0 now1 tx0 True) = Inr 2" by simp
  from st c have "stamp = ''2024-03-06T10:20:30Z''" by (simp add: db0_def)
  with rs have 3: "read_stamp ''2024-03-06T10:20:30Z'' = Some (2024, 3, 6, 10, 20, 30)"
    by (simp add: now1_def)
  note u = save_transaction_spec[where db = empty_db and now = now0 and db' = db1 and i = 1
      and d = "''05/03/2024''" and a = "''12,50''" and c = "''Lazer''"
      and ds = "''cinema''" and ac = "[]" and pm = "''PIX''" and tg = None and al' = False
      and now' = now1]
  have small: "(1::int) < 2 ^ 63 - 1" by simp
  from u a small have 4:
       "add_expense db1 now1 ''05/03/2024'' ''12,50'' ''Lazer'' ''cinema'' [] ''PIX'' None False
           = (Inl DuplicateTransaction, db1)
        \<and> (\<exists>j db''. add_expense db1 now1 ''05/03/2024'' ''12,50'' ''Lazer'' ''cinema'' [] ''PIX'' None True
             = (Inr j, db'') \<and> j \<noteq> 1)"
    by blast
  from d 1 p r v 2 c 3 a 4 show ?thesis by blast
qed

text \<open>
  Claim C3 as stated promises the insert for every transaction that is not refused as
  a duplicate. A transaction with the amount 0 is not a duplicate of any row, and the
  table's \<open>CHECK(amount_cents > 0)\<close> refuses it: \<open>save_transaction\<close> raises
  \<open>IntegrityError\<close> and writes nothing, with and without \<open>allow_duplicate\<close>. The facade
  builds such a transaction from the amount \<open>0.001\<close>. An amount of \<open>2 ^ 63\<close> cannot be
  bound to the statement (\<open>OverflowError\<close>). When the newest row has the id
  \<open>2 ^ 63 - 1\<close> no id is left and the insert fails: after an \<open>add_expense\<close> that received
  this id, the same call with \<open>allow_duplicate\<close> does not succeed.
\<close>

theorem save_insert_refused:
  "is_duplicate db0 (tx0\<lparr>amount_cents := 0\<rparr>) = Inr False
   \<and> save_transaction db0 now0 (tx0\<lparr>amount_cents := 0\<rparr>) False = (Inl IntegrityError, db0)
   \<and> save_transaction db0 now0 (tx0\<lparr>amount_cents := 0\<rparr>) True = (Inl IntegrityError, db0)
   \<and> add_expense empty_db now0 ''05/03/2024'' ''0.001'' ''Lazer'' [] [] [] None True
        = (Inl IntegrityError, empty_db)
   \<and> save_transaction db0 now0 (tx0\<lparr>amount_cents := 2 ^ 63\<rparr>) True = (Inl OverflowError, db0)
   \<and> is_duplicate db_last tx0 = Inr False
   \<and> save_transaction db_last now0 tx0 False = (Inl DatabaseFull, db_last)
   \<and> fst (add_expense db_near now0 ''05/03/2024'' ''12,50'' ''Lazer'' ''cinema'' [] [] None False)
        = Inr (2 ^ 63 - 1)
   \<and> fst (add_expense
             (snd (add_expense db_near now0 ''05/03/2024'' ''12,50'' ''Lazer'' ''cinema'' [] [] None False))
             now1 ''05/03/2024'' ''12,50'' ''Lazer'' ''cinema'' [] [] None True)
        = Inl DatabaseFull"
proof -
  have 1: "is_duplicate db0 (tx0\<lparr>amount_cents := 0\<rparr>) = Inr False" by code_simp
  have 2: "save_transaction db0 now0 (tx0\<lparr>amount_cents := 0\<rparr>) False = (Inl IntegrityError, db0)"
    by code_simp
  have 3: "save_transaction db0 now0 (tx0\<lparr>amount_cents := 0\<rparr>) True = (Inl IntegrityError, db0)"
    by code_simp
  have 4: "add_expense empty_db now0 ''05/03/2024'' ''0.001'' ''Lazer'' [] [] [] None True
        = (Inl IntegrityError, empty_db)" by code_simp
  have 5: "save_transaction db0 now0 (tx0\<lparr>amount_cents := 2 ^ 63\<rparr>) True = (Inl OverflowError, db0)"
    by code_simp
  have 6: "is_duplicate db_last tx0 = Inr False" by code_simp
  have 7: "save_transaction db_last now0 tx0 False = (Inl DatabaseFull, db_last)" by code_simp
  have 8: "fst (add_expense db_near now0 ''05/03/2024'' ''12,50'' ''Lazer'' ''cinema'' [] [] None False)
        = Inr (2 ^ 63 - 1)" by code_simp
  have 9: "fst (add_expense
             (snd (add_expense db_near now0 ''05/03/2024'' ''12,50'' ''Lazer'' ''cinema'' [] [] None False))
             now1 ''05/03/2024'' ''12,50'' ''Lazer'' ''cinema'' [] [] None True)
        = Inl DatabaseFull" by code_simp
  from 1 2 3 4 5 6 7 8 9 show ?thesis by blast
qed

section \<open>The facade\<close>

text \<open>
  Claim C7. \<open>add_expense\<close> and \<open>add_income\<close> stop at the first error in the order date,
  amount, write: a date error is returned whatever the amount is; with a good date an
  amount error is returned; with both good the call is the write of the assembled
  transaction (the validators in between return values and cannot fail). A failure
  leaves the database as it was; a success returns the new id of the one row appended.
\<close>

theorem facade_pipeline:
  assumes "f = add_expense \<and> k = Expense \<or> f = add_income \<and> k = Income"
  shows "(normalize_date_to_iso d = Inl e \<longrightarrow> f db now d a c ds ac pm tg al = (Inl e, db))
   \<and> (normalize_date_to_iso d = Inr di \<and> parse_amount_to_cents a = Inl e \<longrightarrow>
        f db now d a c ds ac pm tg al = (Inl e, db))
   \<and> (normalize_date_to_iso d = Inr di \<and> parse_amount_to_cents a = Inr cents \<longrightarrow>
        f db now d a c ds ac pm tg al =
          save_transaction db now
            \<lparr>kind = k, date_iso = di, amount_cents = cents, category = validate_category k c,
             description = py_strip ds, account = py_or (py_strip ac) ''principal'',
             payment_method = validate_payment_method pm, tags = tg\<rparr> al)
   \<and> (fst (f db now d a c ds ac pm tg al) = Inl e \<longrightarrow> snd (f db now d a c ds ac pm tg al) = db)
   \<and> (f db now d a c ds ac pm tg al = (Inr i, db') \<longrightarrow>
        i = next_rowid db \<and> (\<exists>r. table_rows db' = table_rows db @ [r] \<and> col_id r = i))"
proof -
  from assms have f: "f = add_transaction k" by (auto simp: add_expense_def add_income_def)
  have 1: "normalize_date_to_iso d = Inl e \<longrightarrow> f db now d a c ds ac pm tg al = (Inl e, db)"
    by (simp add: f add_transaction_cases)
  have 2: "normalize_date_to_iso d = Inr di \<and> parse_amount_to_cents a = Inl e \<longrightarrow>
        f db now d a c ds ac pm tg al = (Inl e, db)"
    by (simp add: f add_transaction_cases)
  have 3: "normalize_date_to_iso d = Inr di \<and> parse_amount_to_cents a = Inr cents \<longrightarrow>
        f db now d a c ds ac pm tg al =
          save_transaction db now
            \<lparr>kind = k, date_iso = di, amount_cents = cents, category = validate_category k c,
             description = py_strip ds, account = py_or (py_strip ac) ''principal'',
             payment_method = validate_payment_method pm, tags = tg\<rparr> al"
    by (simp add: f add_transaction_cases)
  have 4: "fst (f db now d a c ds ac pm tg al) = Inl e \<longrightarrow> snd (f db now d a c ds ac pm tg al) = db"
    unfolding f by (rule impI) (rule add_transaction_failure_keeps)
  have 5: "f db now d a c ds ac pm tg al = (Inr i, db') \<longrightarrow>
        i = next_rowid db \<and> (\<exists>r. table_rows db' = table_rows db @ [r] \<and> col_id r = i)"
  proof
    assume s: "f db now d a c ds ac pm tg al = (Inr i, db')"
    then obtain tx where st: "save_transaction db now tx al = (Inr i, db')"
      unfolding f by (auto simp: add_transaction_cases split: sum.splits)
    have ins: "insert_row db tx (isoformat_seconds now @ ''Z'') = (Inr i, db')"
      by (rule save_success[OF st])
    from insert_success[OF ins] have i: "i = next_rowid db" by simp
    from inserted_rows[OF ins]
    have "\<exists>r. table_rows db' = table_rows db @ [r] \<and> col_id r = i" by simp
    with i show "i = next_rowid db \<and> (\<exists>r. table_rows db' = table_rows db @ [r] \<and> col_id r = i)"
      by simp
  qed
  from 1 2 3 4 5 show ?thesis by blast
qed

theorem facade_pipeline_witness:
  "normalize_date_to_iso ''31/02/2024'' = Inl InvalidDate
   \<and> add_expense db1 now1 ''31/02/2024'' ''abc'' ''Lazer'' [] [] [] None False = (Inl InvalidDate, db1)
   \<and> normalize_date_to_iso ''05/03/2024'' = Inr ''2024-03-05''
   \<and> parse_amount_to_cents ''abc'' = Inl InvalidAmount
   \<and> add_expense db1 now1 ''05/03/2024'' ''abc'' ''Lazer'' [] [] [] None False = (Inl InvalidAmount, db1)
   \<and> parse_amount_to_cents ''12,50'' = Inr 1250
   \<and> add_expense db1 now1 ''05/03/2024'' ''12,50'' ''Lazer'' ''cinema'' [] [] None False
        = (Inl DuplicateTransaction, db1)
   \<and> snd (add_expense db1 now1 ''05/03/2024'' ''12,50'' ''Lazer'' ''cinema'' [] [] None False) = db1
   \<and> fst (add_expense empty_db now0 ''05/03/2024'' ''12,50'' ''Lazer'' ''cinema'' [] ''PIX'' None False)
        = Inr (next_rowid empty_db)"
proof -
  have a: "add_expense = add_expense \<and> Expense = Expense \<or> add_expense = add_income \<and> Expense = Income"
    by simp
  have d1: "normalize_date_to_iso ''31/02/2024'' = Inl InvalidDate" by code_simp
  have d2: "normalize_date_to_iso ''05/03/2024'' = Inr ''2024-03-05''" by code_simp
  have p1: "parse_amount_to_cents ''abc'' = Inl InvalidAmount" by code_simp
  have p2: "parse_amount_to_cents ''12,50'' = Inr 1250" by code_simp
  have s: "save_transaction db1 now1
            \<lparr>kind = Expense, date_iso = ''2024-03-05'', amount_cents = 1250,
             category = validate_category Expense ''Lazer'',
             description = py_strip ''cinema'', account = py_or (py_strip []) ''principal'',
             payment_method = validate_payment_method [], tags = None\<rparr> False
           = (Inl DuplicateTransaction, db1)" by code_simp
  have e: "add_expense empty_db now0 ''05/03/2024'' ''12,50'' ''Lazer'' ''cinema'' [] ''PIX'' None False
       = (Inr 1, db1)" by code_simp
  from facade_pipeline[OF a, where d = "''31/02/2024''" and e = InvalidDate and db = db1 and now = now1
      and a = "''abc''" and c = "''Lazer''" and ds = "[]" and ac = "[]" and pm = "[]" and tg = None
      and al = False] d1
  have 1: "add_expense db1 now1 ''31/02/2024'' ''abc'' ''Lazer'' [] [] [] None False = (Inl InvalidDate, db1)"
    by blast
  from facade_pipeline[OF a, where d = "''05/03/2024''" and e = InvalidAmount and db = db1 and now = now1
      and a = "''abc''" and c = "''Lazer''" and ds = "[]" and ac = "[]" and pm = "[]" and tg = None
      and al = False and di = "''2024-03-05''"] d2 p1
  have 2: "add_expense db1 now1 ''05/03/2024'' ''abc'' ''Lazer'' [] [] [] None False = (Inl InvalidAmount, db1)"
    by blast
  note t = facade_pipeline[OF a, where d = "''05/03/2024''" and e = DuplicateTransaction and db = db1
      and now = now1 and a = "''12,50''" and c = "''Lazer''" and ds = "''cinema''" and ac = "[]"
      and pm = "[]" and tg = None and al = False and di = "''2024-03-05''" and cents = 1250]
  from t d2 p2 s
  have 3: "add_expense db1 now1 ''05/03/2024'' ''12,50'' ''Lazer'' ''cinema'' [] [] None False
        = (Inl DuplicateTransaction, db1)" by simp
  from t 3
  have 4: "snd (add_expense db1 now1 ''05/03/2024'' ''12,50'' ''Lazer'' ''cinema'' [] [] None False) = db1"
    by simp
  from facade_pipeline[OF a, where d = "''05/03/2024''" and db = empty_db
      and now = now0 and a = "''12,50''" and c = "''Lazer''" and ds = "''cinema''" and ac = "[]"
      and pm = "''PIX''" and tg = None and al = False and i = 1 and db' = db1] e
  have 5: "fst (add_expense empty_db now0 ''05/03/2024'' ''12,50'' ''Lazer'' ''cinema'' [] ''PIX'' None False)
        = Inr (next_rowid empty_db)" by simp
  from d1 1 d2 p1 2 p2 3 4 5 show ?thesis by blast
qed

section \<open>Listing\<close>

lemma newer_first_key: "newer_first a b = ((col_date b, col_id b) \<le> (col_date a, col_id a))"
  by (auto simp: newer_first_def less_eq_prod_def)

lemma ordered_rows:
  "sorted_wrt newer_first (rev (sort_key (\<lambda>r. (col_date r, col_id r)) rs))"
proof -
  have "sorted (map (\<lambda>r. (col_date r, col_id r)) (sort_key (\<lambda>r. (col_date r, col_id r)) rs))"
    by (rule sorted_sort_key)
  then have "sorted_wrt (\<lambda>a b. (col_date a, col_id a) \<le> (col_date b, col_id b))
               (sort_key (\<lambda>r. (col_date r, col_id r)) rs)"
    by (simp add: sorted_map)
  then show ?thesis
    by (simp add: sorted_wrt_rev newer_first_key[abs_def])
qed

text \<open>
  Claim C9, amended. For every count \<open>n\<close> from 0 up to the largest 64-bit integer,
  \<open>2 ^ 63 - 1\<close>, \<open>list_last\<close> reads at most \<open>n\<close> stored rows, ordered by date descending and then by id
  descending, and leaves the database as it was, so that a second call reads the same
  rows.
\<close>

theorem list_last_spec:
  assumes "0 \<le> n" and "fits_int64 n"
  shows "\<exists>rs. list_last db n = (Inr rs, db)
          \<and> int (length rs) \<le> n
          \<and> sorted_wrt newer_first rs
          \<and> set rs \<subseteq> set (table_rows db)
          \<and> list_last (snd (list_last db n)) n = list_last db n"
proof -
  define ordered where "ordered = rev (sort_key (\<lambda>r. (col_date r, col_id r)) (table_rows db))"
  have r: "list_last db n = (Inr (take (nat n) ordered), db)"
    using assms by (simp add: list_last_def select_last_def ordered_def)
  have 1: "int (length (take (nat n) ordered)) \<le> n" using assms by simp
  have "sorted_wrt newer_first ordered" unfolding ordered_def by (rule ordered_rows)
  then have 2: "sorted_wrt newer_first (take (nat n) ordered)" by (rule sorted_wrt_take)
  have "set (take (nat n) ordered) \<subseteq> set ordered" by (rule set_take_subset)
  then have 3: "set (take (nat n) ordered) \<subseteq> set (table_rows db)" by (simp add: ordered_def)
  have 4: "list_last (snd (list_last db n)) n = list_last db n" by (simp add: list_last_def)
  from r 1 2 3 4 show ?thesis by blast
qed

theorem list_last_spec_witness:
  "(0::int) \<le> 1 \<and> fits_int64 1
   \<and> (\<exists>rs. list_last db2 1 = (Inr rs, db2) \<and> int (length rs) \<le> 1 \<and> sorted_wrt newer_first rs
        \<and> set rs \<subseteq> set (table_rows db2)
        \<and> list_last (snd (list_last db2 1)) 1 = list_last db2 1)"
proof -
  have a: "(0::int) \<le> 1" by simp
  have b: "fits_int64 1" by (simp add: fits_int64_def)
  from list_last_spec[OF a b, of db2] a b show ?thesis by blast
qed

text \<open>
  Claim C9 as stated covers every \<open>n\<close>. \<open>list_last\<close> binds \<open>n\<close> to the \<open>LIMIT\<close> of the
  query, an SQLite \<open>INTEGER\<close>: with \<open>n = 2 ^ 63\<close> the binding raises \<open>OverflowError\<close> and
  no row is returned, although the table holds two rows, fewer than \<open>n\<close>.
\<close>

theorem list_last_limit_too_large:
  "list_last db2 (2 ^ 63) = (Inl OverflowError, db2) \<and> int (length (table_rows db2)) \<le> 2 ^ 63"
proof -
  have 1: "list_last db2 (2 ^ 63) = (Inl OverflowError, db2)"
    by (simp add: list_last_def select_last_def fits_int64_def)
  have 2: "int (length (table_rows db2)) \<le> 2 ^ 63" by (simp add: db2_def)
  from 1 2 show ?thesis by blast
qed

section \<open>Amounts\<close>

text \<open>
  Claim C1. The claim says that a successful \<open>parse_amount_to_cents\<close> returns a positive
  amount. The source tests \<open>valor <= 0\<close> before rounding: \<open>0.001\<close> passes the test and
  \<open>round(0.001 * 100)\<close> is 0.
\<close>

theorem parse_amount_rounds_to_zero:
  "parse_amount_to_cents ''0.001'' = Inr 0"
  by code_simp

text \<open>
  Claim C5. The claim says that formatting a positive amount with \<open>cents_to_brl\<close> and
  parsing the text back gives the amount. \<open>cents_to_brl\<close> divides by \<open>100.0\<close> in floating
  point: \<open>2 ^ 53 + 1\<close> cents is not a float, and the text that comes back parses to
  \<open>2 ^ 53\<close>.
\<close>

theorem brl_round_trip_fails:
  "cents_to_brl 9007199254740993 = Inr ''R$ 90.071.992.547.409,92''
   \<and> parse_amount_to_cents ''R$ 90.071.992.547.409,92'' = Inr 9007199254740992"
proof -
  have 1: "cents_to_brl 9007199254740993 = Inr ''R$ 90.071.992.547.409,92''" by code_simp
  have 2: "parse_amount_to_cents ''R$ 90.071.992.547.409,92'' = Inr 9007199254740992" by code_simp
  from 1 2 show ?thesis by blast
qed

section \<open>The steps of the amount parser\<close>

lemma py_in_single: "py_in [c] s = (c \<in> set s)"
  by (induction s) auto

lemma replace_from_remove: "replace_from [c] [] s = filter (\<lambda>x. x \<noteq> c) s"
  by (induction s) auto

lemma replace_from_subst: "replace_from [c] [d] s = map (\<lambda>x. if x = c then d else x) s"
  by (induction s) auto

lemma py_replace_remove: "py_replace [c] [] s = filter (\<lambda>x. x \<noteq> c) s"
  by (simp add: py_replace_def replace_from_remove)

lemma py_replace_subst: "py_replace [c] [d] s = map (\<lambda>x. if x = c then d else x) s"
  by (simp add: py_replace_def replace_from_subst)

lemma comma_free: "CHR '','' \<notin> set s \<Longrightarrow> map comma_to_dot s = s"
  by (induction s) (auto simp: comma_to_dot_def)

lemma separators_as_code:
  "(if py_in ''.'' s \<and> py_in '','' s then py_replace '','' ''.'' (py_replace ''.'' '''' s)
    else if py_in '','' s then py_replace '','' ''.'' s else s) = disambiguate s"
  by (simp add: py_in_single py_replace_remove py_replace_subst disambiguate_def
      comma_to_dot_def[abs_def])

lemma parse_amount_steps:
  "parse_amount_to_cents raw =
     decimal_cents (disambiguate
       (filter (\<lambda>c. c \<noteq> CHR '' '') (py_replace ''R$'' '''' (py_strip raw))))"
  unfolding parse_amount_to_cents_def Let_def separators_as_code decimal_cents_def
  by (simp add: py_replace_remove)

lemma decimal_cents_invalid: "(decimal_cents s = Inl InvalidAmount) = (py_float s = None)"
proof (cases "py_float s")
  case None then show ?thesis by (simp add: decimal_cents_def)
next
  case (Some v)
  have h: "float_of_int 100 = Inr (Finite 7036874417766400 (- 46))" by code_simp
  have "py_round x \<noteq> Inl InvalidAmount" for x
    by (cases x) (simp_all add: py_round_def)
  with Some show ?thesis by (simp add: decimal_cents_def h)
qed

text \<open>
  Claim C2, amended. \<open>parse_amount_to_cents\<close> removes the whitespace at both ends, then
  every occurrence of \<open>R$\<close>, then every space character. If the text then holds both a
  dot and a comma it removes every dot and turns each comma into a dot; if it holds a
  comma only, each comma becomes a dot; otherwise the text is left as it is. The result
  is read as a decimal number: the call fails with \<open>InvalidAmount\<close> exactly when it cannot
  be read. The three examples of the claim hold.
\<close>

theorem parse_amount_algorithm:
  "parse_amount_to_cents raw =
     decimal_cents (disambiguate
       (filter (\<lambda>c. c \<noteq> CHR '' '') (py_replace ''R$'' '''' (py_strip raw))))
   \<and> (decimal_cents s = Inl InvalidAmount) = (py_float s = None)
   \<and> parse_amount_to_cents ''1.234,56'' = Inr 123456
   \<and> parse_amount_to_cents ''1234.56'' = Inr 123456
   \<and> parse_amount_to_cents ''1234'' = Inr 123400"
proof -
  have 1: "parse_amount_to_cents ''1.234,56'' = Inr 123456" by code_simp
  have 2: "parse_amount_to_cents ''1234.56'' = Inr 123456" by code_simp
  have 3: "parse_amount_to_cents ''1234'' = Inr 123400" by code_simp
  from parse_amount_steps decimal_cents_invalid 1 2 3 show ?thesis by blast
qed

text \<open>
  Claim C2 as stated has the parser strip a leading currency marker and all whitespace.
  The source keeps a tab inside the text, which then cannot be read, and removes a
  marker that is not leading.
\<close>

theorem parse_amount_not_as_worded:
  "parse_amount_to_cents [CHR ''1'', CHR 0x09, CHR ''2''] = Inl InvalidAmount
   \<and> parseAmount_spec [CHR ''1'', CHR 0x09, CHR ''2''] = Inr 1200
   \<and> parse_amount_to_cents ''1R$2'' = Inr 1200
   \<and> parseAmount_spec ''1R$2'' = Inl InvalidAmount"
proof -
  have 1: "parse_amount_to_cents [CHR ''1'', CHR 0x09, CHR ''2''] = Inl InvalidAmount" by code_simp
  have 2: "parseAmount_spec [CHR ''1'', CHR 0x09, CHR ''2''] = Inr 1200" by code_simp
  have 3: "parse_amount_to_cents ''1R$2'' = Inr 1200" by code_simp
  have 4: "parseAmount_spec ''1R$2'' = Inl InvalidAmount" by code_simp
  from 1 2 3 4 show ?thesis by blast
qed

section \<open>The date normaliser\<close>

lemma decimal_value_ascii: "ascii_digit c \<Longrightarrow> decimal_value c = Some (c - 48)"
  by (simp add: decimal_value_def DECIMAL_ZEROS_def ascii_digit_def)

lemma is_decimal_ascii: "ascii_digit c \<Longrightarrow> is_decimal c"
  by (simp add: is_decimal_def decimal_value_ascii)

lemma dval_ascii: "ascii_digit c \<Longrightarrow> dval c = c - 48"
  by (simp add: dval_def decimal_value_ascii)

lemma decimal_value_range: "decimal_value c = Some v \<Longrightarrow> 0 \<le> v \<and> v \<le> 9"
  by (auto simp: decimal_value_def find_Some_iff)

lemma dval_range: "0 \<le> dval c \<and> dval c \<le> 9"
  using decimal_value_range[of c] by (cases "decimal_value c") (auto simp: dval_def)

lemma separators_not_decimal: "\<not> is_decimal 45" "\<not> is_decimal 47" "\<not> is_decimal 32"
  by code_simp+

lemma int_of_decimals_1: "int_of_decimals [a] = dval a"
  by (simp add: int_of_decimals_def)

lemma int_of_decimals_2: "int_of_decimals [a, b] = 10 * dval a + dval b"
  by (simp add: int_of_decimals_def)

lemma len1: "(length s = Suc 0) = (\<exists>a. s = [a])"
  by (cases s) auto

lemma len2: "(length s = 2) = (\<exists>a b. s = [a, b])"
  by (cases s; cases "tl s") auto

lemma re_lit_sound: "r \<in> set (re_lit c s) \<Longrightarrow> s = code c # r"
  by (auto simp: re_lit_def split: list.splits if_splits)

lemma re_Y_sound: "(y, r) \<in> set (re_Y s) \<Longrightarrow> \<exists>Y. s = Y @ r \<and> year_text Y \<and> int_of_decimals Y = y"
  by (rule exI[of _ "take 4 s"]) (auto simp: re_Y_def year_text_def split: if_splits)

lemma re_m_sound:
  assumes "(m, r) \<in> set (re_m s)"
  shows "\<exists>M. s = M @ r \<and> month_text M \<and> int_of_decimals M = m"
proof -
  from assms consider (one) a where "s = a # r" "49 \<le> a" "a \<le> 57" "m = dval a"
    | (two) a b where "s = a # b # r" "m = (if is_decimal a then 10 * dval a else 0) + dval b"
        "(a = 49 \<and> 48 \<le> b \<and> b \<le> 50) \<or> (a = 48 \<and> 49 \<le> b \<and> b \<le> 57)"
    by (auto simp: re_m_def alt_def in_range_def is_char_def split: list.splits if_splits)
  then show ?thesis
  proof cases
    case one
    then have "ascii_digit a" by (simp add: ascii_digit_def)
    with one show ?thesis
      by (intro exI[of _ "[a]"]) (simp add: month_text_def int_of_decimals_1 dval_ascii)
  next
    case two
    then have d: "ascii_digit a" "ascii_digit b" by (auto simp: ascii_digit_def)
    with two show ?thesis
      by (intro exI[of _ "[a, b]"])
         (auto simp: month_text_def int_of_decimals_2 dval_ascii is_decimal_ascii)
  qed
qed

lemma re_d_sound:
  assumes "(d, r) \<in> set (re_d s)"
  shows "\<exists>D. s = D @ r \<and> day_text D \<and> day_val D = d"
proof -
  from assms consider (one) a where "s = a # r" "49 \<le> a" "a \<le> 57" "d = dval a"
    | (two) a b where "s = a # b # r" "d = (if is_decimal a then 10 * dval a else 0) + dval b"
        "(a = 51 \<and> 48 \<le> b \<and> b \<le> 49) \<or> (a = 48 \<and> 49 \<le> b \<and> b \<le> 57)"
    | (any) a b where "s = a # b # r" "d = (if is_decimal a then 10 * dval a else 0) + dval b"
        "49 \<le> a" "a \<le> 50" "is_decimal b"
    | (sp) b where "s = 32 # b # r" "d = (if is_decimal 32 then 10 * dval 32 else 0) + dval b"
        "49 \<le> b" "b \<le> 57"
    by (auto simp: re_d_def alt_def in_range_def is_char_def split: list.splits if_splits)
  then show ?thesis
  proof cases
    case one
    then have "ascii_digit a" by (simp add: ascii_digit_def)
    with one show ?thesis
      by (intro exI[of _ "[a]"])
         (simp add: day_text_def day_val_def int_of_decimals_1 dval_ascii is_decimal_ascii)
  next
    case two
    then have d: "ascii_digit a" "ascii_digit b" by (auto simp: ascii_digit_def)
    with two show ?thesis
      by (intro exI[of _ "[a, b]"])
         (auto simp: day_text_def day_val_def int_of_decimals_2 dval_ascii is_decimal_ascii)
  next
    case any
    then have a: "ascii_digit a" by (simp add: ascii_digit_def)
    from any a dval_range[of b] show ?thesis
      by (intro exI[of _ "[a, b]"])
         (auto simp: day_text_def day_val_def int_of_decimals_2 dval_ascii is_decimal_ascii)
  next
    case sp
    then have b: "ascii_digit b" by (simp add: ascii_digit_def)
    with sp show ?thesis
      by (intro exI[of _ "[32, b]"])
         (simp add: day_text_def day_val_def int_of_decimals_1 dval_ascii is_decimal_ascii
            separators_not_decimal)
  qed
qed

lemma re_Y_complete: "year_text Y \<Longrightarrow> re_Y (Y @ r) = [(int_of_decimals Y, r)]"
  by (simp add: re_Y_def year_text_def)

lemma re_lit_complete: "re_lit c (code c # r) = [r]"
  by (simp add: re_lit_def)

lemma not_decimal_not_ascii: "\<not> is_decimal c \<Longrightarrow> \<not> (48 \<le> c \<and> c \<le> 57)"
  using is_decimal_ascii[of c] by (auto simp: ascii_digit_def)

lemma re_m_complete:
  assumes "month_text M" and "r = [] \<or> \<not> is_decimal (hd r)"
  shows "\<exists>post. re_m (M @ r) = (int_of_decimals M, r) # post"
proof -
  from assms(1) consider (one) a where "M = [a]" "ascii_digit a"
    | (two) a b where "M = [a, b]" "ascii_digit a" "ascii_digit b"
    by (auto simp: month_text_def len1 len2)
  then show ?thesis
  proof cases
    case one
    from one(2) have "dval a = a - 48" by (rule dval_ascii)
    with assms(1) one have a: "49 \<le> a" "a \<le> 57"
      by (simp_all add: month_text_def int_of_decimals_1 ascii_digit_def)
    from assms(2) have nd: "r = [] \<or> \<not> (48 \<le> hd r \<and> hd r \<le> 57)"
      using not_decimal_not_ascii[of "hd r"] by blast
    from a nd show ?thesis unfolding one(1)
      by (cases r) (auto simp: re_m_def alt_def in_range_def is_char_def int_of_decimals_1)
  next
    case two
    with assms(1) have v: "1 \<le> 10 * (a - 48) + (b - 48)" "10 * (a - 48) + (b - 48) \<le> 12"
      by (simp_all add: month_text_def int_of_decimals_2 dval_ascii)
    with two(2,3) have c: "(a = 49 \<and> 48 \<le> b \<and> b \<le> 50) \<or> (a = 48 \<and> 49 \<le> b \<and> b \<le> 57)"
      unfolding ascii_digit_def by presburger
    from two(2) have da: "is_decimal a" by (rule is_decimal_ascii)
    from c da show ?thesis unfolding two(1)
      by (auto simp: re_m_def alt_def in_range_def is_char_def int_of_decimals_2)
  qed
qed

lemma re_d_complete:
  assumes "day_text D" and "r = [] \<or> \<not> is_decimal (hd r)"
  shows "\<exists>post. re_d (D @ r) = (day_val D, r) # post"
proof -
  from assms(1) consider (one) a where "D = [a]" "ascii_digit a" "1 \<le> dval a"
    | (two) a b where "D = [a, b]" "ascii_digit a" "is_decimal b"
        "a = 49 \<or> a = 50 \<or> ascii_digit b" "1 \<le> 10 * dval a + dval b" "10 * dval a + dval b \<le> 31"
    | (sp) b where "D = [32, b]" "ascii_digit b" "1 \<le> dval b"
    by (auto simp: day_text_def len1 len2 int_of_decimals_1 int_of_decimals_2)
  then show ?thesis
  proof cases
    case one
    then have a: "49 \<le> a" "a \<le> 57" and da: "is_decimal a"
      by (simp_all add: dval_ascii ascii_digit_def is_decimal_ascii)
    have v: "day_val [a] = dval a" using da by (simp add: day_val_def int_of_decimals_1)
    from assms(2) have nd: "r = [] \<or> \<not> (48 \<le> hd r \<and> hd r \<le> 57)"
      using not_decimal_not_ascii[of "hd r"] by blast
    from a assms(2) nd show ?thesis unfolding one(1) v
      by (cases r) (auto simp: re_d_def alt_def in_range_def is_char_def)
  next
    case two
    from two(2) have da: "is_decimal a" by (rule is_decimal_ascii)
    have v: "day_val [a, b] = 10 * dval a + dval b"
      using da two(3) by (simp add: day_val_def int_of_decimals_2)
    from two(2) have a48: "dval a = a - 48" by (rule dval_ascii)
    from dval_range[of b] have b09: "0 \<le> dval b" "dval b \<le> 9" by simp_all
    from two(2) have ar: "48 \<le> a" "a \<le> 57" by (simp_all add: ascii_digit_def)
    from two(5,6) a48 b09 ar have a4: "a = 48 \<or> a = 49 \<or> a = 50 \<or> a = 51" by presburger
    then consider (a0) "a = 48" | (a12) "a = 49 \<or> a = 50" | (a3) "a = 51" by blast
    then show ?thesis
    proof cases
      case a0
      with two(4) have bd: "ascii_digit b" by simp
      then have "dval b = b - 48" by (rule dval_ascii)
      with two(5) a0 a48 bd have b: "49 \<le> b" "b \<le> 57" by (simp_all add: ascii_digit_def)
      from a0 b da show ?thesis unfolding two(1) v
        by (auto simp: re_d_def alt_def in_range_def is_char_def)
    next
      case a12
      with two(3) da show ?thesis unfolding two(1) v
        by (auto simp: re_d_def alt_def in_range_def is_char_def)
    next
      case a3
      with two(4) have bd: "ascii_digit b" by simp
      then have "dval b = b - 48" by (rule dval_ascii)
      with two(6) a3 a48 bd have b: "48 \<le> b" "b \<le> 49" by (simp_all add: ascii_digit_def)
      from a3 b da show ?thesis unfolding two(1) v
        by (auto simp: re_d_def alt_def in_range_def is_char_def)
    qed
  next
    case sp
    then have b: "49 \<le> b" "b \<le> 57" and db: "is_decimal b"
      by (simp_all add: dval_ascii ascii_digit_def is_decimal_ascii)
    have v: "day_val [32, b] = dval b"
      using db by (simp add: day_val_def int_of_decimals_1 separators_not_decimal)
    from b show ?thesis unfolding sp(1) v
      by (auto simp: re_d_def alt_def in_range_def is_char_def separators_not_decimal)
  qed
qed

lemma strptime_iso_Some:
  "(strptime_iso ms = Some r) =
     (\<exists>y m d rest. ms = (y, m, d, []) # rest \<and> valid_date y m d \<and> r = isoformat y m d)"
  by (auto simp: strptime_iso_def split: list.splits if_splits)

lemma match_ymd_sound:
  assumes "(y, m, d, r) \<in> set (match_ymd t)"
  shows "\<exists>Y M D. t = Y @ [45] @ M @ [45] @ D @ r \<and> year_text Y \<and> month_text M \<and> day_text D
           \<and> int_of_decimals Y = y \<and> int_of_decimals M = m \<and> day_val D = d"
proof -
  from assms obtain r1 r2 r3 r4 where
    1: "(y, r1) \<in> set (re_Y t)" and 2: "r2 \<in> set (re_lit CHR ''-'' r1)" and
    3: "(m, r3) \<in> set (re_m r2)" and 4: "r4 \<in> set (re_lit CHR ''-'' r3)" and
    5: "(d, r) \<in> set (re_d r4)"
    by (auto simp: match_ymd_def)
  from re_Y_sound[OF 1] obtain Y where Y: "t = Y @ r1" "year_text Y" "int_of_decimals Y = y" by blast
  from re_m_sound[OF 3] obtain M where M: "r2 = M @ r3" "month_text M" "int_of_decimals M = m" by blast
  from re_d_sound[OF 5] obtain D where D: "r4 = D @ r" "day_text D" "day_val D = d" by blast
  from re_lit_sound[OF 2] re_lit_sound[OF 4] Y M D show ?thesis by auto
qed

lemma match_dmy_sound:
  assumes "(y, m, d, r) \<in> set (match_dmy t)"
  shows "\<exists>Y M D. t = D @ [47] @ M @ [47] @ Y @ r \<and> year_text Y \<and> month_text M \<and> day_text D
           \<and> int_of_decimals Y = y \<and> int_of_decimals M = m \<and> day_val D = d"
proof -
  from assms obtain r1 r2 r3 r4 where
    1: "(d, r1) \<in> set (re_d t)" and 2: "r2 \<in> set (re_lit CHR ''/'' r1)" and
    3: "(m, r3) \<in> set (re_m r2)" and 4: "r4 \<in> set (re_lit CHR ''/'' r3)" and
    5: "(y, r) \<in> set (re_Y r4)"
    by (auto simp: match_dmy_def)
  from re_d_sound[OF 1] obtain D where D: "t = D @ r1" "day_text D" "day_val D = d" by blast
  from re_m_sound[OF 3] obtain M where M: "r2 = M @ r3" "month_text M" "int_of_decimals M = m" by blast
  from re_Y_sound[OF 5] obtain Y where Y: "r4 = Y @ r" "year_text Y" "int_of_decimals Y = y" by blast
  from re_lit_sound[OF 2] re_lit_sound[OF 4] Y M D show ?thesis by auto
qed

lemma match_ymd_complete:
  assumes "year_text Y" "month_text M" "day_text D"
  shows "\<exists>post. match_ymd (Y @ [45] @ M @ [45] @ D) = (int_of_decimals Y, int_of_decimals M, day_val D, []) # post"
proof -
  from re_m_complete[OF assms(2), of "[45] @ D"] obtain p1 where
    m: "re_m (M @ [45] @ D) = (int_of_decimals M, [45] @ D) # p1"
    by (auto simp: separators_not_decimal)
  from re_d_complete[OF assms(3), of "[]"] obtain p2 where
    d: "re_d D = (day_val D, []) # p2" by auto
  have l: "re_lit CHR ''-'' (45 # x) = [x]" for x using re_lit_complete[of "CHR ''-''" x] by simp
  show ?thesis
    using re_Y_complete[OF assms(1), of "[45] @ M @ [45] @ D"] m d
    by (simp add: match_ymd_def l)
qed

lemma match_dmy_complete:
  assumes "year_text Y" "month_text M" "day_text D"
  shows "\<exists>post. match_dmy (D @ [47] @ M @ [47] @ Y) = (int_of_decimals Y, int_of_decimals M, day_val D, []) # post"
proof -
  from re_d_complete[OF assms(3), of "[47] @ M @ [47] @ Y"] obtain p1 where
    d: "re_d (D @ [47] @ M @ [47] @ Y) = (day_val D, [47] @ M @ [47] @ Y) # p1"
    by (auto simp: separators_not_decimal)
  from re_m_complete[OF assms(2), of "[47] @ Y"] obtain p2 where
    m: "re_m (M @ [47] @ Y) = (int_of_decimals M, [47] @ Y) # p2"
    by (auto simp: separators_not_decimal)
  have l: "re_lit CHR ''/'' (47 # x) = [x]" for x using re_lit_complete[of "CHR ''/''" x] by simp
  show ?thesis
    using re_Y_complete[OF assms(1), of "[]"] m d
    by (simp add: match_dmy_def l)
qed

lemma match_ymd_on_dmy:
  assumes "day_text D"
  shows "match_ymd (D @ [47] @ rest) = []"
proof -
  from assms consider (one) a where "D = [a]" | (two) a b where "D = [a, b]"
    by (auto simp: day_text_def len1 len2)
  then have "re_Y (D @ [47] @ rest) = []"
    by cases (auto simp: re_Y_def take_Cons' separators_not_decimal)
  then show ?thesis by (simp add: match_ymd_def)
qed

lemma spaces_not_decimal: "uni_isspace c \<Longrightarrow> \<not> is_decimal c"
proof -
  have "list_all (\<lambda>c. \<not> is_decimal c) UNICODE_SPACES" by code_simp
  then show "uni_isspace c \<Longrightarrow> \<not> is_decimal c"
    by (simp add: uni_isspace_def list_all_iff)
qed

lemma uni_isspace_32: "uni_isspace 32"
  by (simp add: uni_isspace_def UNICODE_SPACES_def)

lemma uni_strip_pad:
  assumes "list_all uni_isspace pre" "list_all uni_isspace post"
  shows "uni_strip (pre @ t @ post) = uni_strip t"
proof -
  have 1: "dropWhile uni_isspace (pre @ t @ post) = dropWhile uni_isspace (t @ post)"
    using assms(1) by (simp add: list_all_iff)
  show ?thesis
  proof (cases "list_all uni_isspace t")
    case True
    with assms(2) have "dropWhile uni_isspace (t @ post) = []" "dropWhile uni_isspace t = []"
      by (auto simp: list_all_iff dropWhile_eq_Nil_conv)
    then show ?thesis by (simp add: uni_strip_def 1 del: dropWhile_eq_Nil_conv)
  next
    case False
    then obtain x where "x \<in> set t" "\<not> uni_isspace x" by (auto simp: list_all_iff)
    then have 2: "dropWhile uni_isspace (t @ post) = dropWhile uni_isspace t @ post"
      by (rule dropWhile_append1)
    have 3: "dropWhile uni_isspace (rev post @ ys) = dropWhile uni_isspace ys" for ys
      using assms(2) by (intro dropWhile_append2) (simp add: list_all_iff)
    show ?thesis by (simp add: uni_strip_def 1 2 3)
  qed
qed

lemma uni_strip_parts:
  "\<exists>pre post. s = pre @ uni_strip s @ post \<and> list_all uni_isspace pre \<and> list_all uni_isspace post"
proof -
  define v where "v = dropWhile uni_isspace s"
  have 1: "s = takeWhile uni_isspace s @ v" by (simp add: v_def)
  have "rev (takeWhile uni_isspace (rev v) @ dropWhile uni_isspace (rev v)) = rev (rev v)"
    by (simp only: takeWhile_dropWhile_id)
  then have "rev (dropWhile uni_isspace (rev v)) @ rev (takeWhile uni_isspace (rev v)) = v"
    by (simp only: rev_append rev_rev_ident)
  then have 2: "v = uni_strip s @ rev (takeWhile uni_isspace (rev v))"
    by (simp add: uni_strip_def v_def)
  have 3: "list_all uni_isspace (takeWhile uni_isspace s)"
    by (simp add: list_all_iff) (meson set_takeWhileD)
  have 4: "list_all uni_isspace (rev (takeWhile uni_isspace (rev v)))"
    by (simp add: list_all_iff) (meson set_takeWhileD)
  from 1 2 have "s = takeWhile uni_isspace s @ uni_strip s @ rev (takeWhile uni_isspace (rev v))"
    by simp
  with 3 4 show ?thesis by blast
qed

lemma uni_strip_id:
  assumes "t \<noteq> []" "\<not> uni_isspace (hd t)" "\<not> uni_isspace (last t)"
  shows "uni_strip t = t"
proof -
  from assms(1,2) have 1: "dropWhile uni_isspace t = t" by (cases t) auto
  from assms(1,3) have 2: "dropWhile uni_isspace (rev t) = rev t"
    by (cases "rev t") (auto simp: last_rev[symmetric] hd_rev)
  show ?thesis by (simp add: uni_strip_def 1 2)
qed

lemma uni_strip_decimal_ends:
  assumes "t \<noteq> []" "is_decimal (hd t)" "is_decimal (last t)"
  shows "uni_strip t = t"
  using assms spaces_not_decimal by (intro uni_strip_id) auto

lemma normalize_date_pad:
  assumes "list_all uni_isspace pre" "list_all uni_isspace post"
  shows "normalize_date_codepoints (pre @ t @ post) = normalize_date_codepoints t"
  by (simp add: normalize_date_codepoints_def uni_strip_pad[OF assms])

lemma normalize_date_success:
  "(normalize_date_codepoints s = Inr r) =
     (strptime_iso (match_ymd (uni_strip s)) = Some r
      \<or> (strptime_iso (match_ymd (uni_strip s)) = None \<and> strptime_iso (match_dmy (uni_strip s)) = Some r))"
  by (auto simp: normalize_date_codepoints_def Let_def split: option.splits)

lemma normalize_date_failure:
  "(\<exists>r. normalize_date_codepoints s = Inr r) \<or> normalize_date_codepoints s = Inl InvalidDate"
  by (auto simp: normalize_date_codepoints_def Let_def split: option.splits)

lemma normalize_date_characterised:
  "(normalize_date_codepoints s = Inr r) =
     (\<exists>Y M D. (uni_strip s = Y @ [45] @ M @ [45] @ D \<or> uni_strip s = D @ [47] @ M @ [47] @ Y)
        \<and> year_text Y \<and> month_text M \<and> day_text D
        \<and> valid_date (int_of_decimals Y) (int_of_decimals M) (day_val D)
        \<and> r = isoformat (int_of_decimals Y) (int_of_decimals M) (day_val D))"
  (is "?L = ?R")
proof
  assume ?L
  then consider (ymd) "strptime_iso (match_ymd (uni_strip s)) = Some r"
    | (dmy) "strptime_iso (match_dmy (uni_strip s)) = Some r"
    by (auto simp: normalize_date_success)
  then show ?R
  proof cases
    case ymd
    then obtain y m d rest where
      ms: "match_ymd (uni_strip s) = (y, m, d, []) # rest" and v: "valid_date y m d"
      and r: "r = isoformat y m d"
      by (auto simp: strptime_iso_Some)
    from ms have "(y, m, d, []) \<in> set (match_ymd (uni_strip s))" by simp
    from match_ymd_sound[OF this] v r show ?thesis by auto
  next
    case dmy
    then obtain y m d rest where
      ms: "match_dmy (uni_strip s) = (y, m, d, []) # rest" and v: "valid_date y m d"
      and r: "r = isoformat y m d"
      by (auto simp: strptime_iso_Some)
    from ms have "(y, m, d, []) \<in> set (match_dmy (uni_strip s))" by simp
    from match_dmy_sound[OF this] v r show ?thesis by auto
  qed
next
  assume ?R
  then obtain Y M D where
    t: "uni_strip s = Y @ [45] @ M @ [45] @ D \<or> uni_strip s = D @ [47] @ M @ [47] @ Y"
    and Y: "year_text Y" and M: "month_text M" and D: "day_text D"
    and v: "valid_date (int_of_decimals Y) (int_of_decimals M) (day_val D)"
    and r: "r = isoformat (int_of_decimals Y) (int_of_decimals M) (day_val D)"
    by blast
  from t show ?L
  proof
    assume e: "uni_strip s = Y @ [45] @ M @ [45] @ D"
    from match_ymd_complete[OF Y M D] obtain post where
      "match_ymd (uni_strip s) = (int_of_decimals Y, int_of_decimals M, day_val D, []) # post"
      unfolding e by blast
    with v r have "strptime_iso (match_ymd (uni_strip s)) = Some r"
      by (simp add: strptime_iso_def)
    then show ?L by (simp add: normalize_date_success)
  next
    assume e: "uni_strip s = D @ [47] @ M @ [47] @ Y"
    from match_dmy_complete[OF Y M D] obtain post where
      "match_dmy (uni_strip s) = (int_of_decimals Y, int_of_decimals M, day_val D, []) # post"
      unfolding e by blast
    with v r have 2: "strptime_iso (match_dmy (uni_strip s)) = Some r"
      by (simp add: strptime_iso_def)
    have "match_ymd (uni_strip s) = []"
      unfolding e by (rule match_ymd_on_dmy[OF D])
    then have 1: "strptime_iso (match_ymd (uni_strip s)) = None"
      by (simp add: strptime_iso_def)
    from 1 2 show ?L by (simp add: normalize_date_success)
  qed
qed

lemma normalize_date_canonical:
  assumes "normalize_date_codepoints s = Inr r"
  shows "shape_ymd r"
proof -
  from assms obtain Y M D where
    "valid_date (int_of_decimals Y) (int_of_decimals M) (day_val D)"
    "r = isoformat (int_of_decimals Y) (int_of_decimals M) (day_val D)"
    unfolding normalize_date_characterised by blast
  then show ?thesis by (simp add: isoformat_shape)
qed

lemma year_text_ends:
  assumes "year_text Y"
  shows "Y \<noteq> [] \<and> is_decimal (hd Y) \<and> is_decimal (last Y)"
proof -
  from assms have ne: "Y \<noteq> []" and all: "\<forall>c\<in>set Y. is_decimal c"
    by (auto simp: year_text_def list_all_iff)
  from ne have "hd Y \<in> set Y" "last Y \<in> set Y" by simp_all
  with ne all show ?thesis by blast
qed

lemma day_text_last: "day_text D \<Longrightarrow> D \<noteq> [] \<and> is_decimal (last D)"
  by (auto simp: day_text_def len1 len2 is_decimal_ascii)

lemma day_text_hd:
  assumes "day_text D"
  shows "is_decimal (hd D) \<or> (\<exists>b. D = [32, b] \<and> day_text [b] \<and> day_val [b] = day_val D)"
proof -
  from assms consider (dig) "ascii_digit (hd D)"
    | (sp) b where "D = [32, b]" "ascii_digit b" "1 \<le> dval b"
    by (auto simp: day_text_def len1 len2)
  then show ?thesis
  proof cases
    case dig then show ?thesis by (simp add: is_decimal_ascii)
  next
    case sp
    then have "day_text [b]" by (simp add: day_text_def int_of_decimals_1)
    moreover have "day_val [b] = day_val [32, b]"
      by (simp add: day_val_def separators_not_decimal)
    ultimately show ?thesis using sp(1) by simp
  qed
qed

lemma normalize_date_core_ymd:
  assumes "year_text Y" "month_text M" "day_text D"
    and "valid_date (int_of_decimals Y) (int_of_decimals M) (day_val D)"
  shows "normalize_date_codepoints (Y @ [45] @ M @ [45] @ D)
           = Inr (isoformat (int_of_decimals Y) (int_of_decimals M) (day_val D))"
proof -
  from year_text_ends[OF assms(1)] day_text_last[OF assms(3)]
  have "uni_strip (Y @ [45] @ M @ [45] @ D) = Y @ [45] @ M @ [45] @ D"
    by (intro uni_strip_decimal_ends) auto
  with assms show ?thesis unfolding normalize_date_characterised by blast
qed

lemma normalize_date_core_dmy:
  assumes "year_text Y" "month_text M" "day_text D"
    and "valid_date (int_of_decimals Y) (int_of_decimals M) (day_val D)"
  shows "normalize_date_codepoints (D @ [47] @ M @ [47] @ Y)
           = Inr (isoformat (int_of_decimals Y) (int_of_decimals M) (day_val D))"
proof -
  have plain: "normalize_date_codepoints (E @ [47] @ M @ [47] @ Y)
           = Inr (isoformat (int_of_decimals Y) (int_of_decimals M) (day_val D))"
    if E: "day_text E" "E \<noteq> []" "is_decimal (hd E)" "day_val E = day_val D" for E
  proof -
    from year_text_ends[OF assms(1)] E(2,3)
    have "uni_strip (E @ [47] @ M @ [47] @ Y) = E @ [47] @ M @ [47] @ Y"
      by (intro uni_strip_decimal_ends) auto
    with assms(1,2,4) E(1,4) show ?thesis unfolding normalize_date_characterised by metis
  qed
  from day_text_hd[OF assms(3)] show ?thesis
  proof
    assume "is_decimal (hd D)"
    with day_text_last[OF assms(3)] assms(3) show ?thesis by (intro plain) auto
  next
    assume "\<exists>b. D = [32, b] \<and> day_text [b] \<and> day_val [b] = day_val D"
    then obtain b where b: "D = [32, b]" "day_text [b]" "day_val [b] = day_val D" by blast
    from day_text_last[OF b(2)] have db: "is_decimal b" by simp
    have "normalize_date_codepoints ([32] @ ([b] @ [47] @ M @ [47] @ Y) @ [])
            = normalize_date_codepoints ([b] @ [47] @ M @ [47] @ Y)"
      by (rule normalize_date_pad) (simp_all add: uni_isspace_32)
    also have "\<dots> = Inr (isoformat (int_of_decimals Y) (int_of_decimals M) (day_val D))"
      using b db by (intro plain) auto
    finally show ?thesis by (simp add: b(1))
  qed
qed

text \<open>
  Claim C4, amended. \<open>normalize_date_to_iso\<close> ignores the whitespace at both ends of the
  text (any whitespace of Unicode) and succeeds exactly on the texts \<open>Y-M-D\<close> and \<open>D/M/Y\<close>,
  whitespace before and after them, in which \<open>Y\<close> is four decimal digits of any script,
  \<open>M\<close> is a month from 1 to 12 in one or two ASCII digits and \<open>D\<close> is a day from 1 to 31
  in one or two digits (ASCII digits, but after a first digit 1 or 2 the second may be a
  decimal digit of any script) or a space and one ASCII digit from 1 to 9, and which
  denote a real calendar date of the years 1 to 9999. The result is then the \<open>isoformat\<close>
  of that date, a text of the shape \<open>YYYY-MM-DD\<close> in ASCII digits. On every other input it
  fails with \<open>InvalidDate\<close>. On a Latin-1 text the function is the one on its code points.
  The three examples of the claim hold; a year in full-width digits is accepted
  (\<open>U+FF12 U+FF10 U+FF12 U+FF14\<close>, then \<open>-03-1\<close> and \<open>U+FF15\<close>, is 15 March 2024) and a
  month in full-width digits is refused.
\<close>

theorem normalize_date_accepts:
  "(normalize_date_codepoints s = Inr r) =
     (\<exists>pre post Y M D.
        (s = pre @ (Y @ map code ''-'' @ M @ map code ''-'' @ D) @ post
         \<or> s = pre @ (D @ map code ''/'' @ M @ map code ''/'' @ Y) @ post)
        \<and> list_all uni_isspace pre \<and> list_all uni_isspace post
        \<and> year_text Y \<and> month_text M \<and> day_text D
        \<and> valid_date (int_of_decimals Y) (int_of_decimals M) (day_val D)
        \<and> r = isoformat (int_of_decimals Y) (int_of_decimals M) (day_val D))
   \<and> (normalize_date_codepoints s = Inr r \<longrightarrow> shape_ymd r)
   \<and> ((\<exists>r. normalize_date_codepoints s = Inr r) \<or> normalize_date_codepoints s = Inl InvalidDate)
   \<and> normalize_date_to_iso t = normalize_date_codepoints (map code t)
   \<and> normalize_date_to_iso ''2024-03-05'' = Inr ''2024-03-05''
   \<and> normalize_date_to_iso ''05/03/2024'' = Inr ''2024-03-05''
   \<and> normalize_date_to_iso ''31/02/2024'' = Inl InvalidDate
   \<and> normalize_date_codepoints [65298, 65296, 65298, 65300, 45, 48, 51, 45, 49, 65301]
       = Inr ''2024-03-15''
   \<and> normalize_date_codepoints [50, 48, 50, 52, 45, 65296, 65299, 45, 49, 53] = Inl InvalidDate"
proof -
  have 1: "normalize_date_to_iso ''2024-03-05'' = Inr ''2024-03-05''" by code_simp
  have 2: "normalize_date_to_iso ''05/03/2024'' = Inr ''2024-03-05''" by code_simp
  have 3: "normalize_date_to_iso ''31/02/2024'' = Inl InvalidDate" by code_simp
  have 4: "normalize_date_codepoints s = Inr r \<longrightarrow> shape_ymd r"
    by (rule impI) (rule normalize_date_canonical)
  have 5: "normalize_date_to_iso t = normalize_date_codepoints (map code t)"
    by (simp add: normalize_date_to_iso_def)
  have 6: "normalize_date_codepoints [65298, 65296, 65298, 65300, 45, 48, 51, 45, 49, 65301]
       = Inr ''2024-03-15''" by code_simp
  have 7: "normalize_date_codepoints [50, 48, 50, 52, 45, 65296, 65299, 45, 49, 53]
       = Inl InvalidDate" by code_simp
  have 8: "(normalize_date_codepoints s = Inr r) =
     (\<exists>pre post Y M D.
        (s = pre @ (Y @ map code ''-'' @ M @ map code ''-'' @ D) @ post
         \<or> s = pre @ (D @ map code ''/'' @ M @ map code ''/'' @ Y) @ post)
        \<and> list_all uni_isspace pre \<and> list_all uni_isspace post
        \<and> year_text Y \<and> month_text M \<and> day_text D
        \<and> valid_date (int_of_decimals Y) (int_of_decimals M) (day_val D)
        \<and> r = isoformat (int_of_decimals Y) (int_of_decimals M) (day_val D))"
    (is "?L = ?R")
  proof
    assume ?L
    then obtain Y M D where
      c: "uni_strip s = Y @ [45] @ M @ [45] @ D \<or> uni_strip s = D @ [47] @ M @ [47] @ Y"
      and p: "year_text Y" "month_text M" "day_text D"
        "valid_date (int_of_decimals Y) (int_of_decimals M) (day_val D)"
        "r = isoformat (int_of_decimals Y) (int_of_decimals M) (day_val D)"
      unfolding normalize_date_characterised by blast
    from uni_strip_parts[of s] obtain pre post where
      s: "s = pre @ uni_strip s @ post" and sp: "list_all uni_isspace pre" "list_all uni_isspace post"
      by blast
    from c have "s = pre @ (Y @ map code ''-'' @ M @ map code ''-'' @ D) @ post
         \<or> s = pre @ (D @ map code ''/'' @ M @ map code ''/'' @ Y) @ post"
    proof
      assume e: "uni_strip s = Y @ [45] @ M @ [45] @ D"
      from s have "s = pre @ (Y @ map code ''-'' @ M @ map code ''-'' @ D) @ post"
        unfolding e by simp
      then show ?thesis ..
    next
      assume e: "uni_strip s = D @ [47] @ M @ [47] @ Y"
      from s have "s = pre @ (D @ map code ''/'' @ M @ map code ''/'' @ Y) @ post"
        unfolding e by simp
      then show ?thesis ..
    qed
    with sp p show ?R by blast
  next
    assume ?R
    then obtain pre post Y M D where
      c0: "s = pre @ (Y @ map code ''-'' @ M @ map code ''-'' @ D) @ post
           \<or> s = pre @ (D @ map code ''/'' @ M @ map code ''/'' @ Y) @ post"
      and sp: "list_all uni_isspace pre" "list_all uni_isspace post"
      and p: "year_text Y" "month_text M" "day_text D"
        "valid_date (int_of_decimals Y) (int_of_decimals M) (day_val D)"
      and r: "r = isoformat (int_of_decimals Y) (int_of_decimals M) (day_val D)"
      by blast
    from c0 have
      c: "s = pre @ (Y @ [45] @ M @ [45] @ D) @ post \<or> s = pre @ (D @ [47] @ M @ [47] @ Y) @ post"
      by simp
    from c show ?L
    proof
      assume e: "s = pre @ (Y @ [45] @ M @ [45] @ D) @ post"
      show ?L unfolding e normalize_date_pad[OF sp] r by (rule normalize_date_core_ymd[OF p])
    next
      assume e: "s = pre @ (D @ [47] @ M @ [47] @ Y) @ post"
      show ?L unfolding e normalize_date_pad[OF sp] r by (rule normalize_date_core_dmy[OF p])
    qed
  qed
  from 8 normalize_date_failure[of s] 1 2 3 4 5 6 7 show ?thesis by blast
qed

theorem normalize_date_accepts_witness:
  "normalize_date_codepoints [12288, 65298, 65296, 65298, 65300, 45, 51, 45, 49, 65301, 32]
     = Inr ''2024-03-15''
   \<and> shape_ymd ''2024-03-15''
   \<and> (\<exists>pre post Y M D.
        ([12288, 65298, 65296, 65298, 65300, 45, 51, 45, 49, 65301, 32]
           = pre @ (Y @ map code ''-'' @ M @ map code ''-'' @ D) @ post
         \<or> [12288, 65298, 65296, 65298, 65300, 45, 51, 45, 49, 65301, 32]
           = pre @ (D @ map code ''/'' @ M @ map code ''/'' @ Y) @ post)
        \<and> list_all uni_isspace pre \<and> list_all uni_isspace post
        \<and> year_text Y \<and> month_text M \<and> day_text D
        \<and> valid_date (int_of_decimals Y) (int_of_decimals M) (day_val D)
        \<and> ''2024-03-15'' = isoformat (int_of_decimals Y) (int_of_decimals M) (day_val D))"
proof -
  have 1: "normalize_date_codepoints [12288, 65298, 65296, 65298, 65300, 45, 51, 45, 49, 65301, 32]
     = Inr ''2024-03-15''" by code_simp
  from normalize_date_accepts[of "[12288, 65298, 65296, 65298, 65300, 45, 51, 45, 49, 65301, 32]"
      "''2024-03-15''"] 1
  show ?thesis by blast
qed

text \<open>
  Claim C4 as stated accepts the shapes \<open>YYYY-MM-DD\<close> and \<open>DD/MM/YYYY\<close> only.
  \<open>strptime\<close> also reads a month and a day of one digit: \<open>2024-3-5\<close> has neither
  shape and is accepted.
\<close>

theorem normalize_date_lenient:
  "normalize_date_to_iso ''2024-3-5'' = Inr ''2024-03-05''
   \<and> \<not> shape_ymd (py_strip ''2024-3-5'') \<and> \<not> shape_dmy (py_strip ''2024-3-5'')"
proof -
  have 1: "normalize_date_to_iso ''2024-3-5'' = Inr ''2024-03-05''" by code_simp
  have 2: "\<not> shape_ymd (py_strip ''2024-3-5'')" by code_simp
  have 3: "\<not> shape_dmy (py_strip ''2024-3-5'')" by code_simp
  from 1 2 3 show ?thesis by blast
qed

end
